theory Spec2Isabelle
  imports Main "HOL-Library.Char_ord" "HOL-Library.List_Lexorder"
begin

section \<open>Statuses, fatal outcomes and protobuf messages\<close>

text \<open>
  The client meta cache of \<^verbatim>\<open>src/kudu/client/meta_cache.cc\<close>. Partition keys and uuids are
  \<^verbatim>\<open>std::string\<close>s, compared bytewise: \<^typ>\<open>string\<close> with the lexicographic order on
  characters ordered by their code. A \<^verbatim>\<open>Status\<close> is its code and its message.
\<close>

datatype code = OK | NotFound | Corruption | Incomplete | TimedOut | ServiceUnavailable
  | NetworkError | RemoteError

datatype Status = Status (status_code: code) (status_message: string)

text \<open>
  A failed \<^verbatim>\<open>CHECK\<close> (\<^verbatim>\<open>FindOrDie\<close>, \<^verbatim>\<open>InsertOrDie\<close>, \<^verbatim>\<open>EmplaceOrDie\<close>,
  \<^verbatim>\<open>CHECK_NOTNULL\<close>) ends the process; erasing an iterator range whose first iterator lies
  behind its last is undefined in C++. Both are results of the model. \<^verbatim>\<open>DCHECK\<close>s are
  compiled out of release builds and are not modelled.
\<close>

datatype fault = CheckFailed | UndefinedBehaviour

definition ok :: "Status \<Rightarrow> bool" where
  "ok s = (status_code s = OK)"

text \<open>
  Modelled from the spec: \<^verbatim>\<open>Status::CloneAndPrepend\<close> is declared outside src/; it keeps
  the code and puts the given text in front of the message. A status whose message is
  empty gets the text alone; otherwise the two are joined by a colon and a space.
\<close>

definition CloneAndPrepend :: "Status \<Rightarrow> string \<Rightarrow> Status" where
  "CloneAndPrepend s msg =
     Status (status_code s)
       (if status_message s = [] then msg else msg @ '': '' @ status_message s)"

text \<open>Decimal rendering of the numbers that \<^verbatim>\<open>Substitute\<close> puts into messages.\<close>

fun string_of_nat :: "nat \<Rightarrow> string" where
  "string_of_nat n =
     (if n < 10 then [''0123456789'' ! n]
      else string_of_nat (n div 10) @ [''0123456789'' ! (n mod 10)])"

declare string_of_nat.simps [simp del]

datatype Role = UNKNOWN_ROLE | FOLLOWER | LEADER | LEARNER | NON_PARTICIPANT

record TSInfoPB =
  permanent_uuid :: string
  rpc_addresses :: "(string \<times> nat) list"
  pb_location :: string
  unix_domain_socket_path :: "string option"

record DeprecatedReplicaPB =
  dr_ts_info :: TSInfoPB
  dr_role :: Role

record InternedReplicaPB =
  ts_info_idx :: nat
  ir_role :: Role

record TabletLocationsPB =
  pb_tablet_id :: string
  pb_partition_key_start :: string
  pb_partition_key_end :: string
  deprecated_replicas :: "DeprecatedReplicaPB list"
  interned_replicas :: "InternedReplicaPB list"

section \<open>RemoteTablet\<close>

text \<open>
  A \<^verbatim>\<open>RemoteTabletServer*\<close> is a value of the type variable \<open>'ts\<close>; the code only
  compares and stores these pointers.
\<close>

record 'ts RemoteReplica =
  ts :: 'ts
  role :: Role
  failed :: bool

record 'ts RemoteTablet =
  tablet_id :: string
  partition_key_start :: string
  partition_key_end :: string
  replicas :: "'ts RemoteReplica list"
  stale :: bool

text \<open>The first loop of \<^verbatim>\<open>Refresh\<close>: every lookup is a \<^verbatim>\<open>FindOrDie\<close>.\<close>

fun deprecated_loop ::
  "(string \<rightharpoonup> 'ts) \<Rightarrow> DeprecatedReplicaPB list \<Rightarrow> 'ts RemoteReplica list
     \<Rightarrow> fault + 'ts RemoteReplica list" where
  "deprecated_loop tservers [] acc = Inr acc"
| "deprecated_loop tservers (r # rs) acc =
     (case tservers (permanent_uuid (dr_ts_info r)) of
        None \<Rightarrow> Inl CheckFailed
      | Some p \<Rightarrow>
          deprecated_loop tservers rs (acc @ [\<lparr>ts = p, role = dr_role r, failed = False\<rparr>]))"

text \<open>The second loop: an index outside the dictionary returns \<^verbatim>\<open>Corruption\<close> at once.\<close>

fun interned_loop ::
  "(string \<rightharpoonup> 'ts) \<Rightarrow> TSInfoPB list \<Rightarrow> InternedReplicaPB list \<Rightarrow> 'ts RemoteReplica list
     \<Rightarrow> fault + (Status + 'ts RemoteReplica list)" where
  "interned_loop tservers ts_info_dict [] acc = Inr (Inr acc)"
| "interned_loop tservers ts_info_dict (r # rs) acc =
     (if ts_info_idx r \<ge> length ts_info_dict then
        Inr (Inl (Status Corruption
          (''invalid response from master: referenced tablet idx ''
            @ string_of_nat (ts_info_idx r) @ '' but only ''
            @ string_of_nat (length ts_info_dict) @ '' present'')))
      else
        (case tservers (permanent_uuid (ts_info_dict ! ts_info_idx r)) of
           None \<Rightarrow> Inl CheckFailed
         | Some p \<Rightarrow>
             interned_loop tservers ts_info_dict rs
               (acc @ [\<lparr>ts = p, role = ir_role r, failed = False\<rparr>])))"

text \<open>
  \<^verbatim>\<open>RemoteTablet::Refresh\<close>: the replica list is built in a local vector and adopted,
  with \<^verbatim>\<open>stale_ = false\<close>, only after both loops. The result is the status and the tablet
  as the call leaves it.
\<close>

definition Refresh ::
  "(string \<rightharpoonup> 'ts) \<Rightarrow> TabletLocationsPB \<Rightarrow> TSInfoPB list \<Rightarrow> 'ts RemoteTablet
     \<Rightarrow> fault + (Status \<times> 'ts RemoteTablet)" where
  "Refresh tservers locs_pb ts_info_dict t =
     (case deprecated_loop tservers (deprecated_replicas locs_pb) [] of
        Inl f \<Rightarrow> Inl f
      | Inr rs1 \<Rightarrow>
          (case interned_loop tservers ts_info_dict (interned_replicas locs_pb) rs1 of
             Inl f \<Rightarrow> Inl f
           | Inr (Inl s) \<Rightarrow> Inr (s, t)
           | Inr (Inr rs2) \<Rightarrow> Inr (Status OK [], t\<lparr>replicas := rs2, stale := False\<rparr>)))"

definition MarkStale :: "'ts RemoteTablet \<Rightarrow> 'ts RemoteTablet" where
  "MarkStale t = t\<lparr>stale := True\<rparr>"

definition MarkReplicaFailed :: "'ts \<Rightarrow> 'ts RemoteTablet \<Rightarrow> 'ts RemoteTablet" where
  "MarkReplicaFailed server t =
     t\<lparr>replicas := map (\<lambda>rep. if ts rep = server then rep\<lparr>failed := True\<rparr> else rep)
                      (replicas t)\<rparr>"

text \<open>\<^verbatim>\<open>LeaderTServer\<close> returns a pointer or \<^verbatim>\<open>nullptr\<close>: an option.\<close>

fun first_leader :: "'ts RemoteReplica list \<Rightarrow> 'ts option" where
  "first_leader [] = None"
| "first_leader (replica # rest) =
     (if \<not> failed replica \<and> role replica = LEADER then Some (ts replica)
      else first_leader rest)"

definition LeaderTServer :: "'ts RemoteTablet \<Rightarrow> 'ts option" where
  "LeaderTServer t = first_leader (replicas t)"

definition HasLeader :: "'ts RemoteTablet \<Rightarrow> bool" where
  "HasLeader t = (LeaderTServer t \<noteq> None)"

definition GetRemoteTabletServers :: "'ts RemoteTablet \<Rightarrow> 'ts list" where
  "GetRemoteTabletServers t = map ts (filter (\<lambda>replica. \<not> failed replica) (replicas t))"

definition MarkTServerAsLeader :: "'ts \<Rightarrow> 'ts RemoteTablet \<Rightarrow> 'ts RemoteTablet" where
  "MarkTServerAsLeader server t =
     t\<lparr>replicas :=
         map (\<lambda>replica.
                if ts replica = server then replica\<lparr>role := LEADER\<rparr>
                else if role replica = LEADER then replica\<lparr>role := FOLLOWER\<rparr>
                else replica)
             (replicas t)\<rparr>"

definition MarkTServerAsFollower :: "'ts \<Rightarrow> 'ts RemoteTablet \<Rightarrow> 'ts RemoteTablet" where
  "MarkTServerAsFollower server t =
     t\<lparr>replicas :=
         map (\<lambda>replica. if ts replica = server then replica\<lparr>role := FOLLOWER\<rparr> else replica)
             (replicas t)\<rparr>"

text \<open>The replicas with role Leader, for the statements about \<^verbatim>\<open>MarkTServerAsLeader\<close>.\<close>

definition leaders :: "'ts RemoteTablet \<Rightarrow> 'ts RemoteReplica list" where
  "leaders t = filter (\<lambda>replica. role replica = LEADER) (replicas t)"

definition replicas_of :: "'ts \<Rightarrow> 'ts RemoteTablet \<Rightarrow> 'ts RemoteReplica list" where
  "replicas_of server t = filter (\<lambda>replica. ts replica = server) (replicas t)"

section \<open>MetaCacheServerPicker\<close>

text \<open>
  The picker holds a pointer to its tablet and the set \<^verbatim>\<open>followers_\<close>; the tablet is shared
  with the meta cache, which may refresh it between two calls of the picker.
\<close>

record 'ts MetaCacheServerPicker =
  followers :: "'ts set"
  tablet :: "'ts RemoteTablet"

text \<open>
  What \<^verbatim>\<open>PickLeader\<close> ends with: the proxy of the chosen server is initialised and the
  callback gets that server, or a lookup of the tablet is started. The completion of that
  lookup, at once from the fast path or later from the master, is \<^verbatim>\<open>LookUpTabletCb\<close>, a
  call of its own.
\<close>

datatype 'ts pick = Picked 'ts | LookupStarted

text \<open>
  \<^verbatim>\<open>PickLeader\<close>. \<^verbatim>\<open>ContainsKey(followers_, leader)\<close> is false for a null leader: the
  set only ever receives pointers that passed \<^verbatim>\<open>CHECK_NOTNULL\<close>.
\<close>

definition PickLeader ::
  "'ts MetaCacheServerPicker \<Rightarrow> 'ts pick \<times> 'ts MetaCacheServerPicker" where
  "PickLeader p =
     (if \<not> stale (tablet p) then
        (let leader = LeaderTServer (tablet p);
             marked_as_follower = (case leader of None \<Rightarrow> False | Some l \<Rightarrow> l \<in> followers p);
             t1 = (case leader of
                     Some l \<Rightarrow> if marked_as_follower then MarkTServerAsFollower l (tablet p)
                               else tablet p
                   | None \<Rightarrow> tablet p);
             leader1 = (if leader \<noteq> None \<and> marked_as_follower then None else leader)
         in (case leader1 of
               Some l \<Rightarrow> (Picked l, p\<lparr>tablet := t1\<rparr>)
             | None \<Rightarrow>
                 (case find (\<lambda>s. s \<notin> followers p) (GetRemoteTabletServers t1) of
                    Some l \<Rightarrow> (Picked l, p\<lparr>tablet := MarkTServerAsLeader l t1\<rparr>)
                  | None \<Rightarrow> (LookupStarted, p\<lparr>tablet := t1\<rparr>))))
      else (LookupStarted, p))"

definition MarkServerFailed ::
  "'ts option \<Rightarrow> 'ts MetaCacheServerPicker \<Rightarrow> fault + 'ts MetaCacheServerPicker" where
  "MarkServerFailed replica p =
     (case replica of
        None \<Rightarrow> Inl CheckFailed
      | Some r \<Rightarrow> Inr (p\<lparr>tablet := MarkReplicaFailed r (tablet p)\<rparr>))"

definition MarkReplicaNotLeader ::
  "'ts option \<Rightarrow> 'ts MetaCacheServerPicker \<Rightarrow> fault + 'ts MetaCacheServerPicker" where
  "MarkReplicaNotLeader replica p =
     (case replica of
        None \<Rightarrow> Inl CheckFailed
      | Some r \<Rightarrow> Inr (p\<lparr>followers := insert r (followers p)\<rparr>))"

definition MarkResourceNotFound ::
  "'ts option \<Rightarrow> 'ts MetaCacheServerPicker \<Rightarrow> 'ts MetaCacheServerPicker" where
  "MarkResourceNotFound replica p = p\<lparr>tablet := MarkStale (tablet p)\<rparr>"

text \<open>
  \<^verbatim>\<open>LookUpTabletCb\<close>: the followers are forgotten; a failed lookup goes to the user callback
  with no server, a successful one picks again.
\<close>

datatype 'ts picked = Server 'ts | LookupPending | Failure Status

definition LookUpTabletCb ::
  "Status \<Rightarrow> 'ts MetaCacheServerPicker \<Rightarrow> 'ts picked \<times> 'ts MetaCacheServerPicker" where
  "LookUpTabletCb status p =
     (let p1 = p\<lparr>followers := {}\<rparr> in
      if \<not> ok status then (Failure status, p1)
      else (case PickLeader p1 of
              (Picked l, p2) \<Rightarrow> (Server l, p2)
            | (LookupStarted, p2) \<Rightarrow> (LookupPending, p2)))"

text \<open>
  The calls a picker receives over time. \<^verbatim>\<open>TabletChanged\<close> is the shared tablet as its
  other holders leave it: the meta cache refreshing it or marking a server failed, another
  picker marking a leader or a follower. It carries the replica list and the stale flag.
\<close>

datatype 'ts picker_call =
    CallPickLeader
  | CallMarkServerFailed "'ts option"
  | CallMarkReplicaNotLeader "'ts option"
  | CallMarkResourceNotFound "'ts option"
  | CallLookUpTabletCb Status
  | TabletChanged "'ts RemoteReplica list" bool

text \<open>
  The servers handed to the user callback while the calls are made in order; a failed check
  ends the process and with it the run.
\<close>

fun servers_picked :: "'ts picker_call list \<Rightarrow> 'ts MetaCacheServerPicker \<Rightarrow> 'ts list" where
  "servers_picked [] p = []"
| "servers_picked (CallPickLeader # calls) p =
     (case PickLeader p of
        (Picked l, p') \<Rightarrow> l # servers_picked calls p'
      | (LookupStarted, p') \<Rightarrow> servers_picked calls p')"
| "servers_picked (CallMarkServerFailed r # calls) p =
     (case MarkServerFailed r p of Inl f \<Rightarrow> [] | Inr p' \<Rightarrow> servers_picked calls p')"
| "servers_picked (CallMarkReplicaNotLeader r # calls) p =
     (case MarkReplicaNotLeader r p of Inl f \<Rightarrow> [] | Inr p' \<Rightarrow> servers_picked calls p')"
| "servers_picked (CallMarkResourceNotFound r # calls) p =
     servers_picked calls (MarkResourceNotFound r p)"
| "servers_picked (CallLookUpTabletCb status # calls) p =
     (case LookUpTabletCb status p of
        (Server l, p') \<Rightarrow> l # servers_picked calls p'
      | (LookupPending, p') \<Rightarrow> servers_picked calls p'
      | (Failure s, p') \<Rightarrow> servers_picked calls p')"
| "servers_picked (TabletChanged rs st # calls) p =
     servers_picked calls (p\<lparr>tablet := (tablet p)\<lparr>replicas := rs, stale := st\<rparr>\<rparr>)"

fun is_lookup_completion :: "'ts picker_call \<Rightarrow> bool" where
  "is_lookup_completion (CallLookUpTabletCb status) = True"
| "is_lookup_completion call = False"

section \<open>MetaCache: entries, range maps and indexes\<close>

text \<open>
  A \<^verbatim>\<open>RemoteTabletServer*\<close> held by the cache points into \<^verbatim>\<open>ts_registry_\<close>, which owns one
  object per uuid and never removes one: the pointer is the uuid the object is registered
  under. A \<^verbatim>\<open>scoped_refptr<RemoteTablet>\<close> is a reference into a store of tablet objects,
  so that a refresh is seen through every entry that shares the tablet. \<^verbatim>\<open>MonoTime\<close> is
  an integer count of milliseconds.
\<close>

type_synonym ts_ptr = string
type_synonym tablet_ref = nat
type_synonym MonoTime = int

record RemoteTabletServer =
  uuid :: string
  rpc_hostports :: "(string \<times> nat) list"
  location :: string
  uds_path :: "string option"

text \<open>
  \<^verbatim>\<open>RemoteTabletServer::Update\<close> with its \<^verbatim>\<open>CHECK_EQ\<close> on the uuid, and the constructor,
  which sets the uuid and calls \<^verbatim>\<open>Update\<close>.
\<close>

definition Update :: "TSInfoPB \<Rightarrow> RemoteTabletServer \<Rightarrow> fault + RemoteTabletServer" where
  "Update pb srv =
     (if permanent_uuid pb \<noteq> uuid srv then Inl CheckFailed
      else Inr (srv\<lparr>rpc_hostports := rpc_addresses pb, location := pb_location pb,
                     uds_path := unix_domain_socket_path pb\<rparr>))"

definition new_RemoteTabletServer :: "TSInfoPB \<Rightarrow> RemoteTabletServer" where
  "new_RemoteTabletServer pb =
     \<lparr>uuid = permanent_uuid pb, rpc_hostports = rpc_addresses pb, location = pb_location pb,
      uds_path = unix_domain_socket_path pb\<rparr>"

text \<open>
  Modelled from the spec: \<^verbatim>\<open>MetaCacheEntry\<close> is declared in meta_cache.h, outside src/. An
  entry is an expiration time and either a covered tablet or a non-covered range with its
  own bounds; a covered entry takes its bounds from the partition of its tablet.
\<close>

datatype MetaCacheEntry =
    CoveredEntry MonoTime tablet_ref
  | NonCoveredRange MonoTime string string

fun expiration_time :: "MetaCacheEntry \<Rightarrow> MonoTime" where
  "expiration_time (CoveredEntry e r) = e"
| "expiration_time (NonCoveredRange e lo hi) = e"

fun is_non_covered_range :: "MetaCacheEntry \<Rightarrow> bool" where
  "is_non_covered_range (CoveredEntry e r) = False"
| "is_non_covered_range (NonCoveredRange e lo hi) = True"


fun refresh_expiration_time :: "MonoTime \<Rightarrow> MetaCacheEntry \<Rightarrow> MetaCacheEntry" where
  "refresh_expiration_time e' (CoveredEntry e r) = CoveredEntry e' r"
| "refresh_expiration_time e' (NonCoveredRange e lo hi) = NonCoveredRange e' lo hi"

fun lower_bound_partition_key ::
  "(tablet_ref \<Rightarrow> ts_ptr RemoteTablet) \<Rightarrow> MetaCacheEntry \<Rightarrow> string" where
  "lower_bound_partition_key objs (CoveredEntry e r) = partition_key_start (objs r)"
| "lower_bound_partition_key objs (NonCoveredRange e lo hi) = lo"

fun upper_bound_partition_key ::
  "(tablet_ref \<Rightarrow> ts_ptr RemoteTablet) \<Rightarrow> MetaCacheEntry \<Rightarrow> string" where
  "upper_bound_partition_key objs (CoveredEntry e r) = partition_key_end (objs r)"
| "upper_bound_partition_key objs (NonCoveredRange e lo hi) = hi"

definition Contains ::
  "(tablet_ref \<Rightarrow> ts_ptr RemoteTablet) \<Rightarrow> MetaCacheEntry \<Rightarrow> string \<Rightarrow> bool" where
  "Contains objs entry partition_key =
     (lower_bound_partition_key objs entry \<le> partition_key \<and>
      (upper_bound_partition_key objs entry = [] \<or>
       upper_bound_partition_key objs entry > partition_key))"

fun entry_stale ::
  "(tablet_ref \<Rightarrow> ts_ptr RemoteTablet) \<Rightarrow> MonoTime \<Rightarrow> MetaCacheEntry \<Rightarrow> bool" where
  "entry_stale objs now (CoveredEntry e r) = (e < now \<or> stale (objs r))"
| "entry_stale objs now (NonCoveredRange e lo hi) = (e < now)"

text \<open>
  The table, as far as the cache reads it: its id, its name and the formatter of partition
  keys of its partition schema (used for messages only).
\<close>

record KuduTable =
  table_id :: string
  table_name :: string
  PartitionKeyDebugString :: "string \<Rightarrow> string"

definition string_of_int :: "int \<Rightarrow> string" where
  "string_of_int i = (if i < 0 then ''-'' @ string_of_nat (nat (- i)) else string_of_nat (nat i))"

definition DebugLowerBoundPartitionKey :: "KuduTable \<Rightarrow> string \<Rightarrow> string" where
  "DebugLowerBoundPartitionKey table partition_key =
     (if partition_key = [] then ''<start>'' else PartitionKeyDebugString table partition_key)"

definition DebugString ::
  "(tablet_ref \<Rightarrow> ts_ptr RemoteTablet) \<Rightarrow> MonoTime \<Rightarrow> KuduTable \<Rightarrow> MetaCacheEntry \<Rightarrow> string" where
  "DebugString objs now table entry =
     (let lower_bound = lower_bound_partition_key objs entry;
          upper_bound = upper_bound_partition_key objs entry;
          lower_bound_string = DebugLowerBoundPartitionKey table lower_bound;
          upper_bound_string =
            (if upper_bound = [] then ''<end>'' else PartitionKeyDebugString table upper_bound);
          ttl = expiration_time entry - now
      in case entry of
           NonCoveredRange e lo hi \<Rightarrow>
             ''NonCoveredRange { lower_bound: ('' @ lower_bound_string @ ''), upper_bound: (''
               @ upper_bound_string @ ''), ttl: '' @ string_of_int ttl @ ''ms }''
         | CoveredEntry e r \<Rightarrow>
             ''Tablet { id: '' @ tablet_id (objs r) @ '', lower_bound: ('' @ lower_bound_string
               @ ''), upper_bound: ('' @ upper_bound_string @ ''), ttl: '' @ string_of_int ttl
               @ ''ms }'')"

text \<open>
  \<^verbatim>\<open>TabletMap\<close> is a \<^verbatim>\<open>std::map\<close> from lower bound to entry: an association list kept
  in key order. Erasing between two \<^verbatim>\<open>lower_bound\<close> iterators removes the keys in the
  half-open range; \<^verbatim>\<open>lower_bound(k)\<close> is the first key not below \<open>k\<close>.
\<close>

type_synonym TabletMap = "(string \<times> MetaCacheEntry) list"

definition FindOrNull :: "TabletMap \<Rightarrow> string \<Rightarrow> MetaCacheEntry option" where
  "FindOrNull m k = map_of m k"

fun put_entry :: "string \<Rightarrow> MetaCacheEntry \<Rightarrow> TabletMap \<Rightarrow> TabletMap" where
  "put_entry k e [] = [(k, e)]"
| "put_entry k e ((k', e') # rest) =
     (if k < k' then (k, e) # (k', e') # rest
      else if k = k' then (k, e) # rest
      else (k', e') # put_entry k e rest)"

text \<open>\<^verbatim>\<open>InsertOrDie\<close> and \<^verbatim>\<open>EmplaceOrDie\<close> on a range map: the key must be new.\<close>

definition InsertOrDie :: "string \<Rightarrow> MetaCacheEntry \<Rightarrow> TabletMap \<Rightarrow> fault + TabletMap" where
  "InsertOrDie k e m =
     (case FindOrNull m k of Some e' \<Rightarrow> Inl CheckFailed | None \<Rightarrow> Inr (put_entry k e m))"

text \<open>\<^verbatim>\<open>erase(begin(), lower_bound(hi))\<close>\<close>

definition erase_below :: "string \<Rightarrow> TabletMap \<Rightarrow> TabletMap" where
  "erase_below hi m = filter (\<lambda>(k, e). hi \<le> k) m"

text \<open>\<^verbatim>\<open>erase(lower_bound(lo), lower_bound(hi))\<close>, for \<open>lo \<le> hi\<close>\<close>

definition erase_between :: "string \<Rightarrow> string \<Rightarrow> TabletMap \<Rightarrow> TabletMap" where
  "erase_between lo hi m = filter (\<lambda>(k, e). \<not> (lo \<le> k \<and> k < hi)) m"

text \<open>\<^verbatim>\<open>erase(lower_bound(lo), end())\<close>\<close>

definition erase_from :: "string \<Rightarrow> TabletMap \<Rightarrow> TabletMap" where
  "erase_from lo m = filter (\<lambda>(k, e). k < lo) m"

text \<open>
  \<^verbatim>\<open>lower_bound(hi)\<close> lies in front of \<^verbatim>\<open>lower_bound(lo)\<close> when some key is at or above
  \<open>hi\<close> and below \<open>lo\<close>.
\<close>

definition reversed_range :: "string \<Rightarrow> string \<Rightarrow> TabletMap \<Rightarrow> bool" where
  "reversed_range lo hi m = list_ex (\<lambda>(k, e). hi \<le> k \<and> k < lo) m"

text \<open>\<^verbatim>\<open>FindFloorOrNull\<close>: the entry with the greatest key not above \<open>k\<close>.\<close>

fun FindFloorOrNull :: "TabletMap \<Rightarrow> string \<Rightarrow> (string \<times> MetaCacheEntry) option" where
  "FindFloorOrNull [] k = None"
| "FindFloorOrNull ((k', e') # rest) k =
     (case FindFloorOrNull rest k of
        None \<Rightarrow> if k' \<le> k then Some (k', e') else None
      | Some (k'', e'') \<Rightarrow> if k' \<le> k \<and> k'' < k' then Some (k', e') else Some (k'', e''))"

definition set_entry :: "string \<Rightarrow> MetaCacheEntry \<Rightarrow> TabletMap \<Rightarrow> TabletMap" where
  "set_entry k e m = map (\<lambda>(k', e'). if k' = k then (k', e) else (k', e')) m"

record MetaCache =
  ts_registry :: "string \<rightharpoonup> RemoteTabletServer"
  ts_cache :: "string \<rightharpoonup> ts_ptr"
  tablets_by_id :: "string \<rightharpoonup> tablet_ref"
  tablets_by_table_and_key :: "string \<rightharpoonup> TabletMap"
  entry_by_tablet_id :: "string \<rightharpoonup> MetaCacheEntry"
  master_lookup_sem :: nat
  tablet_objects :: "tablet_ref \<Rightarrow> ts_ptr RemoteTablet"
  next_tablet_ref :: tablet_ref

text \<open>\<^verbatim>\<open>ts->Update(pb)\<close> through a pointer into the registry.\<close>

definition Update_at :: "ts_ptr \<Rightarrow> TSInfoPB \<Rightarrow> MetaCache \<Rightarrow> fault + MetaCache" where
  "Update_at p pb c =
     (case ts_registry c p of
        None \<Rightarrow> Inl UndefinedBehaviour
      | Some srv \<Rightarrow>
          (case Update pb srv of
             Inl f \<Rightarrow> Inl f
           | Inr srv' \<Rightarrow> Inr (c\<lparr>ts_registry := (ts_registry c)(p \<mapsto> srv')\<rparr>)))"

text \<open>
  \<^verbatim>\<open>UpdateTabletServerUnlocked\<close>. Its \<^verbatim>\<open>EmplaceOrDie\<close> and \<^verbatim>\<open>InsertOrDie\<close> come after
  lookups that found nothing under the uuid, so they insert.
\<close>

definition UpdateTabletServerUnlocked :: "TSInfoPB \<Rightarrow> MetaCache \<Rightarrow> fault + MetaCache" where
  "UpdateTabletServerUnlocked pb c =
     (let ts_uuid = permanent_uuid pb in
      case ts_cache c ts_uuid of
        Some p \<Rightarrow> Update_at p pb c
      | None \<Rightarrow>
          (case (case ts_registry c ts_uuid of
                   Some srv \<Rightarrow> Update_at ts_uuid pb c
                 | None \<Rightarrow>
                     Inr (c\<lparr>ts_registry := (ts_registry c)(ts_uuid \<mapsto> new_RemoteTabletServer pb)\<rparr>))
           of Inl f \<Rightarrow> Inl f
            | Inr c1 \<Rightarrow> Inr (c1\<lparr>ts_cache := (ts_cache c1)(ts_uuid \<mapsto> ts_uuid)\<rparr>)))"

fun UpdateTabletServers :: "TSInfoPB list \<Rightarrow> MetaCache \<Rightarrow> fault + MetaCache" where
  "UpdateTabletServers [] c = Inr c"
| "UpdateTabletServers (pb # pbs) c =
     (case UpdateTabletServerUnlocked pb c of
        Inl f \<Rightarrow> Inl f
      | Inr c' \<Rightarrow> UpdateTabletServers pbs c')"

section \<open>MetaCache: ingestion of a table-locations response\<close>

record GetTableLocationsResponsePB =
  ttl_millis :: nat
  tablet_locations :: "TabletLocationsPB list"
  ts_infos :: "TSInfoPB list"
  error :: "Status option"

text \<open>
  Modelled from the spec: the constructor of \<^verbatim>\<open>RemoteTablet\<close> is declared in meta_cache.h,
  outside src/; it stores the id and the partition, with no replicas and not stale.
\<close>

definition new_RemoteTablet :: "string \<Rightarrow> string \<Rightarrow> string \<Rightarrow> ts_ptr RemoteTablet" where
  "new_RemoteTablet tid lo hi =
     \<lparr>tablet_id = tid, partition_key_start = lo, partition_key_end = hi, replicas = [],
      stale = False\<rparr>"

definition refresh_failed :: "Status \<Rightarrow> string \<Rightarrow> Status" where
  "refresh_failed s tid = CloneAndPrepend s (''failed to refresh locations for tablet '' @ tid)"

text \<open>
  The loop body for a tablet that \<^verbatim>\<open>tablets_by_id_\<close> knows: refresh the shared object, then
  refresh the expiration of the entry at the tablet's lower bound, or index the tablet there.
\<close>

definition refresh_known_tablet ::
  "MonoTime \<Rightarrow> TSInfoPB list \<Rightarrow> TabletLocationsPB \<Rightarrow> tablet_ref \<Rightarrow> MetaCache \<Rightarrow> TabletMap
     \<Rightarrow> fault + (Status \<times> MetaCache \<times> TabletMap)" where
  "refresh_known_tablet expiration infos tablet_pb remote c m =
     (case Refresh (ts_cache c) tablet_pb infos (tablet_objects c remote) of
        Inl f \<Rightarrow> Inl f
      | Inr (s, t') \<Rightarrow>
          (let c1 = c\<lparr>tablet_objects := (tablet_objects c)(remote := t')\<rparr> in
           if \<not> ok s then Inr (refresh_failed s (pb_tablet_id tablet_pb), c1, m)
           else
             (case FindOrNull m (pb_partition_key_start tablet_pb) of
                Some entry \<Rightarrow>
                  Inr (Status OK [], c1,
                       set_entry (pb_partition_key_start tablet_pb)
                         (refresh_expiration_time expiration entry) m)
              | None \<Rightarrow>
                  (case InsertOrDie (pb_partition_key_start tablet_pb)
                          (CoveredEntry expiration remote) m of
                     Inl f \<Rightarrow> Inl f
                   | Inr m' \<Rightarrow> Inr (Status OK [], c1, m')))))"

text \<open>
  The loop body for an unknown tablet: erase what overlaps its range, build the object,
  refresh it, and index it by id and by lower bound. A failed refresh returns after the
  erasure; the new object dies with the call.
\<close>

definition cache_new_tablet ::
  "MonoTime \<Rightarrow> TSInfoPB list \<Rightarrow> TabletLocationsPB \<Rightarrow> MetaCache \<Rightarrow> TabletMap
     \<Rightarrow> fault + (Status \<times> MetaCache \<times> TabletMap)" where
  "cache_new_tablet expiration infos tablet_pb c m =
     (let lo = pb_partition_key_start tablet_pb; hi = pb_partition_key_end tablet_pb in
      if hi \<noteq> [] \<and> reversed_range lo hi m then Inl UndefinedBehaviour
      else
        (let m1 = (if hi = [] then erase_from lo m else erase_between lo hi m);
             remote = next_tablet_ref c
         in case Refresh (ts_cache c) tablet_pb infos
                   (new_RemoteTablet (pb_tablet_id tablet_pb) lo hi) of
              Inl f \<Rightarrow> Inl f
            | Inr (s, t') \<Rightarrow>
                if \<not> ok s then Inr (refresh_failed s (pb_tablet_id tablet_pb), c, m1)
                else
                  (case InsertOrDie lo (CoveredEntry expiration remote) m1 of
                     Inl f \<Rightarrow> Inl f
                   | Inr m2 \<Rightarrow>
                       Inr (Status OK [],
                            c\<lparr>tablets_by_id := (tablets_by_id c)(pb_tablet_id tablet_pb \<mapsto> remote),
                              tablet_objects := (tablet_objects c)(remote := t'),
                              next_tablet_ref := Suc remote\<rparr>,
                            m2))))"

text \<open>A non-covered range \<open>[lo, hi)\<close> found between two tablets of the response.\<close>

definition non_covered_gap :: "MonoTime \<Rightarrow> string \<Rightarrow> string \<Rightarrow> TabletMap \<Rightarrow> fault + TabletMap" where
  "non_covered_gap expiration lo hi m =
     InsertOrDie lo (NonCoveredRange expiration lo hi) (erase_between lo hi m)"

text \<open>One round of the loop over the response; the last component is \<^verbatim>\<open>last_upper_bound\<close>.\<close>

definition ingest_tablet ::
  "MonoTime \<Rightarrow> TSInfoPB list \<Rightarrow> TabletLocationsPB \<Rightarrow> MetaCache \<Rightarrow> TabletMap \<Rightarrow> string
     \<Rightarrow> fault + (Status \<times> MetaCache \<times> TabletMap \<times> string)" where
  "ingest_tablet expiration infos tablet_pb c m last_upper_bound =
     (case (if last_upper_bound < pb_partition_key_start tablet_pb
            then non_covered_gap expiration last_upper_bound (pb_partition_key_start tablet_pb) m
            else Inr m) of
        Inl f \<Rightarrow> Inl f
      | Inr m1 \<Rightarrow>
          (case (case tablets_by_id c (pb_tablet_id tablet_pb) of
                   Some remote \<Rightarrow> refresh_known_tablet expiration infos tablet_pb remote c m1
                 | None \<Rightarrow> cache_new_tablet expiration infos tablet_pb c m1) of
             Inl f \<Rightarrow> Inl f
           | Inr (s, c', m') \<Rightarrow> Inr (s, c', m', pb_partition_key_end tablet_pb)))"

fun ingest_tablets ::
  "MonoTime \<Rightarrow> TSInfoPB list \<Rightarrow> TabletLocationsPB list \<Rightarrow> MetaCache \<Rightarrow> TabletMap \<Rightarrow> string
     \<Rightarrow> fault + (Status \<times> MetaCache \<times> TabletMap \<times> string)" where
  "ingest_tablets expiration infos [] c m last_upper_bound =
     Inr (Status OK [], c, m, last_upper_bound)"
| "ingest_tablets expiration infos (tablet_pb # rest) c m last_upper_bound =
     (case ingest_tablet expiration infos tablet_pb c m last_upper_bound of
        Inl f \<Rightarrow> Inl f
      | Inr (s, c', m', last_upper_bound') \<Rightarrow>
          if ok s then ingest_tablets expiration infos rest c' m' last_upper_bound'
          else Inr (s, c', m', last_upper_bound'))"

text \<open>The initial non-covered range, inferred when the key lies below the first tablet.\<close>

definition initial_non_covered_range ::
  "MonoTime \<Rightarrow> string \<Rightarrow> string \<Rightarrow> TabletMap \<Rightarrow> fault + TabletMap" where
  "initial_non_covered_range expiration partition_key first_lower_bound m =
     (if partition_key < first_lower_bound
      then InsertOrDie [] (NonCoveredRange expiration [] first_lower_bound)
             (erase_below first_lower_bound m)
      else Inr m)"

text \<open>The trailing non-covered range, inferred from a short read.\<close>

definition trailing_non_covered_range ::
  "MonoTime \<Rightarrow> string \<Rightarrow> nat \<Rightarrow> int \<Rightarrow> TabletMap \<Rightarrow> fault + TabletMap" where
  "trailing_non_covered_range expiration last_upper_bound returned max_returned_locations m =
     (if last_upper_bound \<noteq> [] \<and> int returned < max_returned_locations
      then InsertOrDie last_upper_bound (NonCoveredRange expiration last_upper_bound [])
             (erase_from last_upper_bound m)
      else Inr m)"

text \<open>
  The branch for a response with tablets: the tablet servers of the deprecated replicas and
  of the interned dictionary are registered first, then the ranges are merged.
\<close>

definition ingest_locations ::
  "MonoTime \<Rightarrow> string \<Rightarrow> GetTableLocationsResponsePB \<Rightarrow> int \<Rightarrow> MetaCache \<Rightarrow> TabletMap
     \<Rightarrow> fault + (Status \<times> MetaCache \<times> TabletMap)" where
  "ingest_locations expiration partition_key resp max_returned_locations c m =
     (case tablet_locations resp of
        [] \<Rightarrow>
          (case InsertOrDie [] (NonCoveredRange expiration [] []) [] of
             Inl f \<Rightarrow> Inl f
           | Inr m' \<Rightarrow> Inr (Status OK [], c, m'))
      | first # others \<Rightarrow>
          (case UpdateTabletServers
                  (concat (map (\<lambda>tablet_pb. map dr_ts_info (deprecated_replicas tablet_pb))
                               (tablet_locations resp))) c of
             Inl f \<Rightarrow> Inl f
           | Inr c0 \<Rightarrow>
          (case UpdateTabletServers (ts_infos resp) c0 of
             Inl f \<Rightarrow> Inl f
           | Inr c1 \<Rightarrow>
          (case initial_non_covered_range expiration partition_key
                  (pb_partition_key_start first) m of
             Inl f \<Rightarrow> Inl f
           | Inr m1 \<Rightarrow>
          (case ingest_tablets expiration (ts_infos resp) (tablet_locations resp) c1 m1
                  (pb_partition_key_start first) of
             Inl f \<Rightarrow> Inl f
           | Inr (s, c2, m2, last_upper_bound) \<Rightarrow>
               if \<not> ok s then Inr (s, c2, m2)
               else
                 (case trailing_non_covered_range expiration last_upper_bound
                         (length (tablet_locations resp)) max_returned_locations m2 of
                    Inl f \<Rightarrow> Inl f
                  | Inr m3 \<Rightarrow> Inr (Status OK [], c2, m3)))))))"

text \<open>\<^verbatim>\<open>LookupOrInsert(&tablets_by_table_and_key_, table->id(), TabletMap())\<close>\<close>

definition table_map :: "MetaCache \<Rightarrow> string \<Rightarrow> TabletMap" where
  "table_map c tid = (case tablets_by_table_and_key c tid of None \<Rightarrow> [] | Some m \<Rightarrow> m)"

text \<open>The end of the function: the entry handed back, by \<^verbatim>\<open>FindFloorOrDie\<close>.\<close>

definition discovered_entry ::
  "(tablet_ref \<Rightarrow> ts_ptr RemoteTablet) \<Rightarrow> TabletMap \<Rightarrow> string \<Rightarrow> bool \<Rightarrow> fault + MetaCacheEntry" where
  "discovered_entry objs m partition_key is_exact_lookup =
     (case FindFloorOrNull m partition_key of
        None \<Rightarrow> Inl CheckFailed
      | Some (k, entry) \<Rightarrow>
          if \<not> is_exact_lookup \<and> is_non_covered_range entry
             \<and> upper_bound_partition_key objs entry \<noteq> []
          then (case FindFloorOrNull m (upper_bound_partition_key objs entry) of
                  None \<Rightarrow> Inl CheckFailed
                | Some (k', entry') \<Rightarrow> Inr entry')
          else Inr entry)"

text \<open>
  \<^verbatim>\<open>ProcessGetTableLocationsResponse\<close>. The range map is changed in place, so a status
  returned from inside the loop leaves the changes made so far; the result is the status,
  the cache and the entry written to \<^verbatim>\<open>cache_entry\<close> (none on an error).
\<close>

definition ProcessGetTableLocationsResponse ::
  "KuduTable \<Rightarrow> string \<Rightarrow> bool \<Rightarrow> GetTableLocationsResponsePB \<Rightarrow> int \<Rightarrow> MonoTime \<Rightarrow> MetaCache
     \<Rightarrow> fault + (Status \<times> MetaCache \<times> MetaCacheEntry option)" where
  "ProcessGetTableLocationsResponse table partition_key is_exact_lookup resp
       max_returned_locations now c =
     (let expiration = now + int (ttl_millis resp) in
      case ingest_locations expiration partition_key resp max_returned_locations c
             (table_map c (table_id table)) of
        Inl f \<Rightarrow> Inl f
      | Inr (s, c1, m) \<Rightarrow>
          (let c2 = c1\<lparr>tablets_by_table_and_key :=
                         (tablets_by_table_and_key c1)(table_id table \<mapsto> m)\<rparr> in
           if \<not> ok s then Inr (s, c2, None)
           else
             (case discovered_entry (tablet_objects c2) m partition_key is_exact_lookup of
                Inl f \<Rightarrow> Inl f
              | Inr entry \<Rightarrow> Inr (Status OK [], c2, Some entry))))"

section \<open>MetaCache: ingestion of a tablet-locations (by id) response\<close>

record GetTabletLocationsResponsePB =
  id_tablet_locations :: "TabletLocationsPB list"
  id_ts_infos :: "TSInfoPB list"
  id_error :: "Status option"

text \<open>
  \<^verbatim>\<open>ProcessGetTabletLocationsResponse\<close>; \<open>ttl_flag\<close> is the value of the flag
  \<^verbatim>\<open>client_tablet_locations_by_id_ttl_ms\<close>. The empty response returns before the
  lock is taken and before anything is written.
\<close>

definition ProcessGetTabletLocationsResponse ::
  "string \<Rightarrow> GetTabletLocationsResponsePB \<Rightarrow> int \<Rightarrow> MonoTime \<Rightarrow> MetaCache
     \<Rightarrow> fault + (Status \<times> MetaCache \<times> MetaCacheEntry option)" where
  "ProcessGetTabletLocationsResponse tid resp ttl_flag now c =
     (let expiration = now + ttl_flag in
      case id_tablet_locations resp of
        [] \<Rightarrow> Inr (Status NotFound [], c, None)
      | tablet_pb # others \<Rightarrow>
          (case UpdateTabletServers (id_ts_infos resp) c of
             Inl f \<Rightarrow> Inl f
           | Inr c1 \<Rightarrow>
               (case tablets_by_id c1 tid of
                  Some remote \<Rightarrow>
                    (case Refresh (ts_cache c1) tablet_pb (id_ts_infos resp)
                            (tablet_objects c1 remote) of
                       Inl f \<Rightarrow> Inl f
                     | Inr (s, t') \<Rightarrow>
                         (let c2 = c1\<lparr>tablet_objects := (tablet_objects c1)(remote := t')\<rparr> in
                          if \<not> ok s then Inr (refresh_failed s tid, c2, None)
                          else
                            (let mapped_entry =
                                   (case entry_by_tablet_id c2 tid of
                                      Some e \<Rightarrow> e
                                    | None \<Rightarrow> CoveredEntry expiration remote);
                                 entry = refresh_expiration_time expiration mapped_entry
                             in Inr (Status OK [],
                                     c2\<lparr>entry_by_tablet_id := (entry_by_tablet_id c2)(tid \<mapsto> entry)\<rparr>,
                                     Some entry))))
                | None \<Rightarrow>
                    (case Refresh (ts_cache c1) tablet_pb (id_ts_infos resp)
                            (new_RemoteTablet tid (pb_partition_key_start tablet_pb)
                               (pb_partition_key_end tablet_pb)) of
                       Inl f \<Rightarrow> Inl f
                     | Inr (s, t') \<Rightarrow>
                         if \<not> ok s then Inr (refresh_failed s tid, c1, None)
                         else
                           (case entry_by_tablet_id c1 tid of
                              Some e \<Rightarrow> Inl CheckFailed
                            | None \<Rightarrow>
                                (let remote = next_tablet_ref c1;
                                     entry = CoveredEntry expiration remote
                                 in Inr (Status OK [],
                                         c1\<lparr>tablets_by_id := (tablets_by_id c1)(tid \<mapsto> remote),
                                            entry_by_tablet_id :=
                                              (entry_by_tablet_id c1)(tid \<mapsto> entry),
                                            tablet_objects := (tablet_objects c1)(remote := t'),
                                            next_tablet_ref := Suc remote\<rparr>,
                                         Some entry)))))))"

section \<open>MetaCache: fast-path lookups\<close>

datatype LookupType = kLowerBound | kPoint

definition LookupEntryByKeyFastPath ::
  "MetaCache \<Rightarrow> MonoTime \<Rightarrow> KuduTable \<Rightarrow> string \<Rightarrow> MetaCacheEntry option" where
  "LookupEntryByKeyFastPath c now table partition_key =
     (case tablets_by_table_and_key c (table_id table) of
        None \<Rightarrow> None
      | Some tablets \<Rightarrow>
          (case FindFloorOrNull tablets partition_key of
             None \<Rightarrow> None
           | Some (k, e) \<Rightarrow>
               if entry_stale (tablet_objects c) now e then None
               else if Contains (tablet_objects c) e partition_key then Some e
               else None))"

text \<open>
  \<^verbatim>\<open>DoFastPathLookup\<close>: the loop is a recursion that may not return, so the result is an
  option. It gives the status, the partition key as the loop leaves it (the key is passed
  by pointer) and the tablet written to \<^verbatim>\<open>remote_tablet\<close>.
\<close>

partial_function (option) DoFastPathLookup ::
  "MetaCache \<Rightarrow> MonoTime \<Rightarrow> KuduTable \<Rightarrow> string \<Rightarrow> LookupType
     \<Rightarrow> (Status \<times> string \<times> tablet_ref option) option" where
  "DoFastPathLookup c now table partition_key lookup_type =
     (case LookupEntryByKeyFastPath c now table partition_key of
        None \<Rightarrow> Some (Status Incomplete [], partition_key, None)
      | Some entry \<Rightarrow>
          (case entry of
             CoveredEntry e r \<Rightarrow>
               if HasLeader (tablet_objects c r) then Some (Status OK [], partition_key, Some r)
               else Some (Status Incomplete [], partition_key, None)
           | NonCoveredRange e lo hi \<Rightarrow>
               if lookup_type = kPoint \<or> hi = [] then
                 Some (Status NotFound
                         (''No tablet covering the requested range partition: ''
                            @ DebugString (tablet_objects c) now table entry),
                       partition_key, None)
               else DoFastPathLookup c now table hi lookup_type))"

declare DoFastPathLookup.simps [code]



section \<open>Lookups\<close>

text \<open>
  Modelled from the spec: the semaphore class is declared outside src/. It is a counting
  semaphore; \<^verbatim>\<open>TryAcquire\<close> takes a permit when one is left and does not block.
\<close>

definition AcquireMasterLookupPermit :: "MetaCache \<Rightarrow> bool \<times> MetaCache" where
  "AcquireMasterLookupPermit c =
     (if master_lookup_sem c > 0 then (True, c\<lparr>master_lookup_sem := master_lookup_sem c - 1\<rparr>)
      else (False, c))"

definition ReleaseMasterLookupPermit :: "MetaCache \<Rightarrow> MetaCache" where
  "ReleaseMasterLookupPermit c = c\<lparr>master_lookup_sem := master_lookup_sem c + 1\<rparr>"

datatype Visibility = Visibility_VOTERS | Visibility_ALL

datatype ReplicaTypeFilter = ANY_REPLICA | VOTER_REPLICA

record GetTableLocationsRequestPB =
  req_table_id :: string
  partition_key_start_req :: string
  max_returned_locations_req :: int
  intern_ts_infos_in_response :: bool
  replica_type_filter :: "ReplicaTypeFilter option"

record LookupRpc =
  req :: GetTableLocationsRequestPB
  rpc_table :: KuduTable
  partition_key :: string
  has_permit :: bool
  lookup_type :: LookupType
  replica_visibility :: Visibility

text \<open>
  Modelled from the spec: the two constants are declared outside src/; the spec gives about
  10 tablets for a range lookup and about 1 for a point lookup.
\<close>

definition kFetchTabletsPerRangeLookup :: int where
  "kFetchTabletsPerRangeLookup = 10"

definition kFetchTabletsPerPointLookup :: int where
  "kFetchTabletsPerPointLookup = 1"

definition locations_to_fetch :: "LookupRpc \<Rightarrow> int" where
  "locations_to_fetch rpc =
     (case lookup_type rpc of
        kLowerBound \<Rightarrow> kFetchTabletsPerRangeLookup
      | kPoint \<Rightarrow> kFetchTabletsPerPointLookup)"

definition new_LookupRpc :: "KuduTable \<Rightarrow> string \<Rightarrow> LookupType \<Rightarrow> Visibility \<Rightarrow> LookupRpc" where
  "new_LookupRpc table key ltype visibility =
     \<lparr>req = \<lparr>req_table_id = [], partition_key_start_req = [], max_returned_locations_req = 0,
              intern_ts_infos_in_response = False, replica_type_filter = None\<rparr>,
      rpc_table = table, partition_key = key, has_permit = False, lookup_type = ltype,
      replica_visibility = visibility\<rparr>"

text \<open>What a call of the slow path ends with.\<close>

datatype rpc_action = DelayedRetry Status | SentToMaster GetTableLocationsRequestPB

definition SendRpcSlowPath :: "LookupRpc \<Rightarrow> MetaCache \<Rightarrow> rpc_action \<times> LookupRpc \<times> MetaCache" where
  "SendRpcSlowPath rpc c =
     (let (permit, c1) = (if \<not> has_permit rpc then AcquireMasterLookupPermit c
                          else (has_permit rpc, c));
          rpc1 = rpc\<lparr>has_permit := permit\<rparr>
      in if \<not> has_permit rpc1 then
           (DelayedRetry (Status TimedOut
              ''client has too many outstanding requests to the master''), rpc1, c1)
         else
           (let request = (req rpc1)\<lparr>req_table_id := table_id (rpc_table rpc1),
                                    partition_key_start_req := partition_key rpc1,
                                    max_returned_locations_req := locations_to_fetch rpc1,
                                    intern_ts_infos_in_response := True,
                                    replica_type_filter :=
                                      (if replica_visibility rpc1 = Visibility_ALL then Some ANY_REPLICA
                                       else replica_type_filter (req rpc1))\<rparr>
            in (SentToMaster request, rpc1\<lparr>req := request\<rparr>, c1)))"

text \<open>The destructor of \<^verbatim>\<open>LookupRpc\<close>.\<close>

definition destroy_LookupRpc :: "LookupRpc \<Rightarrow> MetaCache \<Rightarrow> MetaCache" where
  "destroy_LookupRpc rpc c = (if has_permit rpc then ReleaseMasterLookupPermit c else c)"

text \<open>
  \<^verbatim>\<open>LookupTabletByKey\<close>: the callback is called from the fast path, or a \<^verbatim>\<open>LookupRpc\<close>
  is built with the key the fast path left and sent down the slow path.
\<close>

datatype lookup_by_key =
    CallbackInvoked Status "tablet_ref option"
  | LookupRpcStarted rpc_action LookupRpc

definition LookupTabletByKey ::
  "MetaCache \<Rightarrow> MonoTime \<Rightarrow> KuduTable \<Rightarrow> string \<Rightarrow> LookupType \<Rightarrow> Visibility
     \<Rightarrow> (lookup_by_key \<times> MetaCache) option" where
  "LookupTabletByKey c now table key ltype visibility =
     (case DoFastPathLookup c now table key ltype of
        None \<Rightarrow> None
      | Some (fastpath_status, key', remote_tablet) \<Rightarrow>
          if status_code fastpath_status \<noteq> Incomplete
          then Some (CallbackInvoked fastpath_status remote_tablet, c)
          else (case SendRpcSlowPath (new_LookupRpc table key' ltype visibility) c of
                  (action, rpc, c') \<Rightarrow> Some (LookupRpcStarted action rpc, c')))"

text \<open>
  The life of one \<^verbatim>\<open>LookupRpc\<close>: the slow path is entered once for each cache state of the
  list (other lookups move the semaphore in between), then the object is destroyed. The
  permits it took are what each call removed from the semaphore, the permits it gave back
  what the destructor added.
\<close>

fun permits_acquired :: "MetaCache list \<Rightarrow> LookupRpc \<Rightarrow> nat \<times> LookupRpc" where
  "permits_acquired [] rpc = (0, rpc)"
| "permits_acquired (c # cs) rpc =
     (case SendRpcSlowPath rpc c of
        (action, rpc', c') \<Rightarrow>
          (case permits_acquired cs rpc' of
             (n, rpc'') \<Rightarrow> (master_lookup_sem c - master_lookup_sem c' + n, rpc'')))"

definition permits_released :: "LookupRpc \<Rightarrow> MetaCache \<Rightarrow> nat" where
  "permits_released rpc c = master_lookup_sem (destroy_LookupRpc rpc c) - master_lookup_sem c"

section \<open>LookupRpcById\<close>








section \<open>Conditions and inputs of the statements\<close>

text \<open>
  Every server that the replicas of a response name is in the map handed to
  \<^verbatim>\<open>Refresh\<close>, so that no \<^verbatim>\<open>FindOrDie\<close> of the two loops fails.
\<close>

definition servers_known :: "(string \<rightharpoonup> 'ts) \<Rightarrow> TabletLocationsPB \<Rightarrow> TSInfoPB list \<Rightarrow> bool" where
  "servers_known tservers locs_pb ts_info_dict =
     ((\<forall>r \<in> set (deprecated_replicas locs_pb). tservers (permanent_uuid (dr_ts_info r)) \<noteq> None) \<and>
      (\<forall>r \<in> set (interned_replicas locs_pb).
          ts_info_idx r < length ts_info_dict \<longrightarrow>
          tservers (permanent_uuid (ts_info_dict ! ts_info_idx r)) \<noteq> None))"

text \<open>A tablet with three replicas on the servers 1, 2 and 3, led by 1.\<close>

definition tablet_B :: "nat RemoteTablet" where
  "tablet_B =
     \<lparr>tablet_id = ''B'', partition_key_start = ''c1'', partition_key_end = ''c3'',
      replicas = [\<lparr>ts = 1, role = LEADER, failed = False\<rparr>,
                  \<lparr>ts = 2, role = FOLLOWER, failed = False\<rparr>,
                  \<lparr>ts = 3, role = FOLLOWER, failed = False\<rparr>],
      stale = False\<rparr>"

definition ts_info :: "string \<Rightarrow> TSInfoPB" where
  "ts_info u =
     \<lparr>permanent_uuid = u, rpc_addresses = [(''host-'' @ u, 7050)], pb_location = [],
      unix_domain_socket_path = None\<rparr>"

text \<open>A server map that knows the servers \<open>u1\<close> and \<open>u2\<close>.\<close>

definition two_tservers :: "string \<rightharpoonup> nat" where
  "two_tservers = [''u1'' \<mapsto> 1, ''u2'' \<mapsto> 2]"

text \<open>
  Locations of tablet \<open>B\<close> whose second interned replica points behind a dictionary of
  two servers; the second one also has an old-style replica in front.
\<close>

definition locs_bad_index :: TabletLocationsPB where
  "locs_bad_index =
     \<lparr>pb_tablet_id = ''B'', pb_partition_key_start = ''c1'', pb_partition_key_end = ''c3'',
      deprecated_replicas = [],
      interned_replicas = [\<lparr>ts_info_idx = 0, ir_role = LEADER\<rparr>,
                           \<lparr>ts_info_idx = 2, ir_role = FOLLOWER\<rparr>]\<rparr>"

definition locs_bad_index_old_style :: TabletLocationsPB where
  "locs_bad_index_old_style =
     locs_bad_index\<lparr>deprecated_replicas := [\<lparr>dr_ts_info = ts_info ''u3'', dr_role = FOLLOWER\<rparr>]\<rparr>"

definition two_ts_infos :: "TSInfoPB list" where
  "two_ts_infos = [ts_info ''u1'', ts_info ''u2'']"

definition range_map_after ::
  "fault + (Status \<times> MetaCache \<times> MetaCacheEntry option) \<Rightarrow> string \<Rightarrow> TabletMap option" where
  "range_map_after result tid =
     (case result of Inl f \<Rightarrow> None | Inr (s, c, e) \<Rightarrow> tablets_by_table_and_key c tid)"

definition status_after ::
  "fault + (Status \<times> MetaCache \<times> MetaCacheEntry option) \<Rightarrow> code option" where
  "status_after result = (case result of Inl f \<Rightarrow> None | Inr (s, c, e) \<Rightarrow> Some (status_code s))"

definition table_T :: KuduTable where
  "table_T = \<lparr>table_id = ''T'', table_name = ''t'', PartitionKeyDebugString = id\<rparr>"

definition tablet_D :: "ts_ptr RemoteTablet" where
  "tablet_D =
     \<lparr>tablet_id = ''D'', partition_key_start = ''c5'', partition_key_end = ''c7'',
      replicas = [\<lparr>ts = ''u1'', role = LEADER, failed = False\<rparr>,
                  \<lparr>ts = ''u2'', role = FOLLOWER, failed = False\<rparr>],
      stale = False\<rparr>"

definition cache_D :: MetaCache where
  "cache_D =
     \<lparr>ts_registry = [''u1'' \<mapsto> new_RemoteTabletServer (ts_info ''u1''),
                      ''u2'' \<mapsto> new_RemoteTabletServer (ts_info ''u2'')],
      ts_cache = [''u1'' \<mapsto> ''u1'', ''u2'' \<mapsto> ''u2''],
      tablets_by_id = [''D'' \<mapsto> 0],
      tablets_by_table_and_key =
        [''T'' \<mapsto> [(''c3'', NonCoveredRange 60000 ''c3'' ''c5''), (''c5'', CoveredEntry 60000 0),
                    (''c7'', NonCoveredRange 60000 ''c7'' [])]],
      entry_by_tablet_id = Map.empty,
      master_lookup_sem = 50,
      tablet_objects = (\<lambda>r. tablet_D),
      next_tablet_ref = 1\<rparr>"

definition empty_response :: GetTableLocationsResponsePB where
  "empty_response = \<lparr>ttl_millis = 300000, tablet_locations = [], ts_infos = [], error = None\<rparr>"




definition busy_cache :: MetaCache where
  "busy_cache = cache_D\<lparr>master_lookup_sem := 0\<rparr>"

definition holding_lookup :: LookupRpc where
  "holding_lookup = (new_LookupRpc table_T ''c4'' kPoint Visibility_VOTERS)\<lparr>has_permit := True\<rparr>"

definition point_lookup :: LookupRpc where
  "point_lookup = new_LookupRpc table_T ''c4'' kPoint Visibility_VOTERS"

definition picker_0 :: "nat MetaCacheServerPicker" where
  "picker_0 = \<lparr>followers = {}, tablet = tablet_B\<rparr>"

definition picker_1 :: "nat MetaCacheServerPicker" where
  "picker_1 = \<lparr>followers = {1}, tablet = tablet_B\<rparr>"

text \<open>
  The measure of the fast-path loop: the non-covered entries of the table's range map whose
  upper bound lies above the key.
\<close>

definition gaps_above :: "MetaCache \<Rightarrow> KuduTable \<Rightarrow> string \<Rightarrow> nat" where
  "gaps_above c tbl k =
     length (filter (\<lambda>(k', e). is_non_covered_range e \<and> k < upper_bound_partition_key (tablet_objects c) e)
               (table_map c (table_id tbl)))"

definition cache_D_failed :: MetaCache where
  "cache_D_failed = cache_D\<lparr>tablet_objects := (\<lambda>r. MarkReplicaFailed ''u1'' tablet_D)\<rparr>"

definition range_map_D :: TabletMap where
  "range_map_D =
     [(''c3'', NonCoveredRange 60000 ''c3'' ''c5''), (''c5'', CoveredEntry 60000 0),
      (''c7'', NonCoveredRange 60000 ''c7'' [])]"

text \<open>
  The order the master returns tablets in: every tablet but the last has a non-empty upper
  bound, and it is not above the lower bound of the next tablet.
\<close>

fun ascending :: "TabletLocationsPB list \<Rightarrow> bool" where
  "ascending [] = True"
| "ascending [t] = True"
| "ascending (a # b # rest) =
     (pb_partition_key_end a \<noteq> [] \<and> pb_partition_key_end a \<le> pb_partition_key_start b \<and>
      ascending (b # rest))"

text \<open>The cache of a new client, and the responses of the scenarios of the spec.\<close>

definition empty_cache :: MetaCache where
  "empty_cache =
     \<lparr>ts_registry = Map.empty, ts_cache = Map.empty, tablets_by_id = Map.empty,
      tablets_by_table_and_key = Map.empty, entry_by_tablet_id = Map.empty,
      master_lookup_sem = 50, tablet_objects = (\<lambda>r. new_RemoteTablet [] [] []),
      next_tablet_ref = 0\<rparr>"

definition locations :: "string \<Rightarrow> string \<Rightarrow> string \<Rightarrow> TabletLocationsPB" where
  "locations tid lo hi =
     \<lparr>pb_tablet_id = tid, pb_partition_key_start = lo, pb_partition_key_end = hi,
      deprecated_replicas = [],
      interned_replicas = [\<lparr>ts_info_idx = 0, ir_role = LEADER\<rparr>,
                           \<lparr>ts_info_idx = 1, ir_role = FOLLOWER\<rparr>]\<rparr>"

definition response :: "TabletLocationsPB list \<Rightarrow> GetTableLocationsResponsePB" where
  "response locs =
     \<lparr>ttl_millis = 60000, tablet_locations = locs, ts_infos = two_ts_infos, error = None\<rparr>"

definition resp_S1 :: GetTableLocationsResponsePB where
  "resp_S1 = response [locations ''B'' ''c1'' ''c3'', locations ''D'' ''c5'' ''c7'']"

definition resp_S5 :: GetTableLocationsResponsePB where
  "resp_S5 = response [locations ''A'' ''a'' ''b'', locations ''B'' ''b'' ''c'']"

definition resp_bad_index :: GetTableLocationsResponsePB where
  "resp_bad_index = response [locs_bad_index]"

definition resp_unsorted :: GetTableLocationsResponsePB where
  "resp_unsorted = response [locations ''B'' ''b'' ''c'', locations ''D'' [] ''a'']"

section \<open>RemoteTablet: the leader mark and the refresh\<close>

lemma leaders_after_mark:
  "length (filter (\<lambda>replica. role replica = LEADER)
      (map (\<lambda>replica. if ts replica = x then replica\<lparr>role := LEADER\<rparr>
                      else if role replica = LEADER then replica\<lparr>role := FOLLOWER\<rparr>
                      else replica) rs))
   = length (filter (\<lambda>replica. ts replica = x) rs)"
  by (induction rs) auto

text \<open>
  C4 (amended). After \<^verbatim>\<open>MarkTServerAsLeader(x)\<close> the replicas with role Leader are exactly
  the replicas whose server is \<open>x\<close>: there are as many leaders as replicas on \<open>x\<close> (one
  when \<open>x\<close> has one replica in the list, none when it has none), servers and failure marks
  are untouched, and a replica that was Leader and is not on \<open>x\<close> is Follower.
\<close>

theorem MarkTServerAsLeader_leaders:
  "length (leaders (MarkTServerAsLeader x t)) = length (replicas_of x t) \<and>
   length (replicas (MarkTServerAsLeader x t)) = length (replicas t) \<and>
   (\<forall>i < length (replicas t).
      ts (replicas (MarkTServerAsLeader x t) ! i) = ts (replicas t ! i) \<and>
      failed (replicas (MarkTServerAsLeader x t) ! i) = failed (replicas t ! i) \<and>
      (role (replicas (MarkTServerAsLeader x t) ! i) = LEADER \<longleftrightarrow> ts (replicas t ! i) = x) \<and>
      (role (replicas t ! i) = LEADER \<and> ts (replicas t ! i) \<noteq> x \<longrightarrow>
         role (replicas (MarkTServerAsLeader x t) ! i) = FOLLOWER))"
  using leaders_after_mark[of x "replicas t"]
  by (simp add: leaders_def replicas_of_def MarkTServerAsLeader_def)

theorem MarkTServerAsLeader_leaders_witness:
  "(0::nat) < length (replicas tablet_B) \<and>
   length (leaders (MarkTServerAsLeader 2 tablet_B)) = 1 \<and>
   role (replicas tablet_B ! 0) = LEADER \<and>
   role (replicas (MarkTServerAsLeader 2 tablet_B) ! 0) = FOLLOWER \<and>
   role (replicas (MarkTServerAsLeader 2 tablet_B) ! 1) = LEADER"
  using MarkTServerAsLeader_leaders[of 2 tablet_B]
  by (simp add: tablet_B_def replicas_of_def)

text \<open>
  C4 as stated fails for a server with no replica in the list: marking server 4 on a tablet
  led by server 1 demotes 1 and leaves no leader.
\<close>

theorem MarkTServerAsLeader_absent_server_counterexample:
  "length (leaders tablet_B) = 1 \<and> length (leaders (MarkTServerAsLeader 4 tablet_B)) = 0"
  by (simp add: tablet_B_def leaders_def MarkTServerAsLeader_def)

lemma deprecated_loop_fault:
  "deprecated_loop tservers rs acc = Inl f \<Longrightarrow> f = CheckFailed"
  by (induction rs arbitrary: acc) (auto split: option.splits)

lemma deprecated_loop_known:
  "\<forall>r \<in> set rs. tservers (permanent_uuid (dr_ts_info r)) \<noteq> None \<Longrightarrow>
   \<exists>rs'. deprecated_loop tservers rs acc = Inr rs'"
  by (induction rs arbitrary: acc) (auto split: option.splits)

lemma interned_loop_fault:
  "interned_loop tservers d rs acc = Inl f \<Longrightarrow> f = CheckFailed"
  by (induction rs arbitrary: acc) (auto split: option.splits if_splits)

lemma interned_loop_status:
  "interned_loop tservers d rs acc = Inr (Inl s) \<Longrightarrow> status_code s = Corruption"
  by (induction rs arbitrary: acc) (auto split: option.splits if_splits)

lemma interned_loop_out_of_range:
  "\<exists>r \<in> set rs. length d \<le> ts_info_idx r \<Longrightarrow>
   interned_loop tservers d rs acc \<noteq> Inr (Inr rs')"
  by (induction rs arbitrary: acc) (auto split: option.splits if_splits)

lemma interned_loop_known:
  "\<forall>r \<in> set rs. ts_info_idx r < length d \<longrightarrow>
       tservers (permanent_uuid (d ! ts_info_idx r)) \<noteq> None \<Longrightarrow>
   \<exists>res. interned_loop tservers d rs acc = Inr res"
  by (induction rs arbitrary: acc) (auto split: option.splits if_splits)

lemma Refresh_fault: "Refresh tservers locs_pb d t = Inl f \<Longrightarrow> f = CheckFailed"
  unfolding Refresh_def
  by (auto split: sum.splits dest: deprecated_loop_fault interned_loop_fault)

lemma Refresh_not_ok:
  "Refresh tservers locs_pb d t = Inr (s, t') \<Longrightarrow> \<not> ok s \<Longrightarrow>
   t' = t \<and> status_code s = Corruption"
  unfolding Refresh_def ok_def
  by (auto split: sum.splits dest: interned_loop_status)

lemma Refresh_ok:
  "Refresh tservers locs_pb d t = Inr (s, t') \<Longrightarrow> ok s \<Longrightarrow>
   s = Status OK [] \<and> \<not> stale t' \<and> tablet_id t' = tablet_id t \<and>
   partition_key_start t' = partition_key_start t \<and> partition_key_end t' = partition_key_end t"
  unfolding Refresh_def ok_def
  by (auto split: sum.splits dest: interned_loop_status)

lemma Refresh_out_of_range:
  "\<exists>r \<in> set (interned_replicas locs_pb). length d \<le> ts_info_idx r \<Longrightarrow>
   Refresh tservers locs_pb d t = Inr (s, t') \<Longrightarrow> \<not> ok s"
proof -
  assume bad: "\<exists>r \<in> set (interned_replicas locs_pb). length d \<le> ts_info_idx r"
    and ret: "Refresh tservers locs_pb d t = Inr (s, t')"
  from ret obtain rs1 res where
    2: "interned_loop tservers d (interned_replicas locs_pb) rs1 = Inr res"
    and 3: "(case res of Inl s' \<Rightarrow> (s', t)
             | Inr rs2 \<Rightarrow> (Status OK [], t\<lparr>replicas := rs2, stale := False\<rparr>)) = (s, t')"
    by (auto simp: Refresh_def split: sum.splits)
  from interned_loop_out_of_range[OF bad] 2 obtain s' where "res = Inl s'"
    by (cases res) auto
  with 2 3 interned_loop_status[of tservers d "interned_replicas locs_pb" rs1 s]
  show ?thesis by (auto simp: ok_def)
qed

lemma Refresh_known:
  "servers_known tservers locs_pb d \<Longrightarrow> \<exists>res. Refresh tservers locs_pb d t = Inr res"
proof -
  assume known: "servers_known tservers locs_pb d"
  then obtain rs1 where 1: "deprecated_loop tservers (deprecated_replicas locs_pb) [] = Inr rs1"
    using deprecated_loop_known[of "deprecated_replicas locs_pb" tservers "[]"]
    by (auto simp: servers_known_def)
  from known obtain res where
    2: "interned_loop tservers d (interned_replicas locs_pb) rs1 = Inr res"
    using interned_loop_known[of "interned_replicas locs_pb" d tservers rs1]
    by (auto simp: servers_known_def)
  from 1 2 show ?thesis by (cases res) (auto simp: Refresh_def)
qed

text \<open>
  C5 (amended). When some interned replica's index is not below the size of the dictionary,
  \<^verbatim>\<open>Refresh\<close> never adopts a replica list: it returns \<^verbatim>\<open>Corruption\<close> with the tablet
  (replicas and stale flag) as it was, unless a \<^verbatim>\<open>FindOrDie\<close> on a replica in front of it
  ends the process; it does return \<^verbatim>\<open>Corruption\<close> when every server the replicas name is
  in the map. Whatever the response, a status that is not OK leaves the tablet as it was,
  and the stale flag is cleared with an OK status.
\<close>

theorem Refresh_interned_index_out_of_range:
  "((\<exists>r \<in> set (interned_replicas locs_pb). length ts_info_dict \<le> ts_info_idx r) \<longrightarrow>
      (Refresh tservers locs_pb ts_info_dict t = Inl CheckFailed \<or>
       (\<exists>msg. Refresh tservers locs_pb ts_info_dict t = Inr (Status Corruption msg, t))) \<and>
      (servers_known tservers locs_pb ts_info_dict \<longrightarrow>
       (\<exists>msg. Refresh tservers locs_pb ts_info_dict t = Inr (Status Corruption msg, t)))) \<and>
   (\<forall>s t'. Refresh tservers locs_pb ts_info_dict t = Inr (s, t') \<and> \<not> ok s \<longrightarrow> t' = t) \<and>
   (\<forall>s t'. Refresh tservers locs_pb ts_info_dict t = Inr (s, t') \<and> ok s \<longrightarrow> \<not> stale t')"
proof -
  have corrupt: "\<exists>msg. Refresh tservers locs_pb ts_info_dict t = Inr (Status Corruption msg, t)"
    if bad: "\<exists>r \<in> set (interned_replicas locs_pb). length ts_info_dict \<le> ts_info_idx r"
      and ret: "Refresh tservers locs_pb ts_info_dict t = Inr res" for res
  proof -
    obtain s t' where res: "res = (s, t')" by (cases res)
    from Refresh_out_of_range[OF bad ret[unfolded res]] have "\<not> ok s" .
    with Refresh_not_ok[OF ret[unfolded res]] have "t' = t" "status_code s = Corruption" by auto
    then have "res = (Status Corruption (status_message s), t)" using res by (cases s) simp
    with ret show ?thesis by blast
  qed
  have 1: "Refresh tservers locs_pb ts_info_dict t = Inl CheckFailed \<or>
       (\<exists>msg. Refresh tservers locs_pb ts_info_dict t = Inr (Status Corruption msg, t))"
    if bad: "\<exists>r \<in> set (interned_replicas locs_pb). length ts_info_dict \<le> ts_info_idx r"
  proof (cases "Refresh tservers locs_pb ts_info_dict t")
    case (Inl f)
    with Refresh_fault show ?thesis by blast
  next
    case (Inr res)
    with corrupt[OF bad] show ?thesis by blast
  qed
  have 2: "\<exists>msg. Refresh tservers locs_pb ts_info_dict t = Inr (Status Corruption msg, t)"
    if bad: "\<exists>r \<in> set (interned_replicas locs_pb). length ts_info_dict \<le> ts_info_idx r"
      and known: "servers_known tservers locs_pb ts_info_dict"
    using Refresh_known[OF known] corrupt[OF bad] by blast
  have 3: "\<forall>s t'. Refresh tservers locs_pb ts_info_dict t = Inr (s, t') \<and> \<not> ok s \<longrightarrow> t' = t"
    using Refresh_not_ok by blast
  have 4: "\<forall>s t'. Refresh tservers locs_pb ts_info_dict t = Inr (s, t') \<and> ok s \<longrightarrow> \<not> stale t'"
    using Refresh_ok by blast
  from 1 2 3 4 show ?thesis by blast
qed

theorem Refresh_interned_index_out_of_range_witness:
  "(\<exists>r \<in> set (interned_replicas locs_bad_index). length two_ts_infos \<le> ts_info_idx r) \<and>
   servers_known two_tservers locs_bad_index two_ts_infos \<and>
   (\<exists>msg. Refresh two_tservers locs_bad_index two_ts_infos (MarkStale tablet_B)
            = Inr (Status Corruption msg, MarkStale tablet_B)) \<and>
   stale (MarkStale tablet_B)"
  using Refresh_interned_index_out_of_range[of locs_bad_index two_ts_infos two_tservers
      "MarkStale tablet_B"]
  by (simp add: locs_bad_index_def two_ts_infos_def two_tservers_def servers_known_def
      ts_info_def tablet_B_def MarkStale_def)

text \<open>
  C5 as stated fails when a replica in front of the bad index names a server that the map
  does not hold: the \<^verbatim>\<open>FindOrDie\<close> of the first loop ends the process and no
  \<^verbatim>\<open>Corruption\<close> is returned.
\<close>

theorem Refresh_unknown_server_counterexample:
  "Refresh two_tservers locs_bad_index_old_style two_ts_infos tablet_B = Inl CheckFailed"
  by (simp add: Refresh_def two_tservers_def locs_bad_index_old_style_def locs_bad_index_def
      ts_info_def)

text \<open>
  The ingestion of a by-id response registers the servers of the interned dictionary only,
  so an old-style replica on a server the cache has not seen reaches that \<^verbatim>\<open>FindOrDie\<close>.
\<close>

lemma by_id_response_unknown_server:
  "ProcessGetTabletLocationsResponse ''B''
     \<lparr>id_tablet_locations = [locs_bad_index_old_style], id_ts_infos = two_ts_infos,
      id_error = None\<rparr> 3600000 0 cache_D = Inl CheckFailed"
  by (simp add: ProcessGetTabletLocationsResponse_def two_ts_infos_def ts_info_def cache_D_def
      UpdateTabletServerUnlocked_def Update_at_def Update_def new_RemoteTabletServer_def
      Refresh_def new_RemoteTablet_def locs_bad_index_old_style_def locs_bad_index_def Let_def)

section \<open>Empty responses\<close>

text \<open>
  C7. Ingesting a table-locations response without tablet locations clears the range map of
  the table and inserts one entry, the non-covered range with empty lower and empty upper
  bound, under the empty key: whatever the cache held, the map of the table is that single
  entry afterwards, the status is OK and the entry is the one handed back.
\<close>

theorem empty_response_single_entry:
  "tablet_locations resp = [] \<longrightarrow>
   ProcessGetTableLocationsResponse tbl pk is_exact_lookup resp
       max_returned_locations now c =
     Inr (Status OK [],
          c\<lparr>tablets_by_table_and_key :=
              (tablets_by_table_and_key c)
                (table_id tbl \<mapsto> [([], NonCoveredRange (now + int (ttl_millis resp)) [] [])])\<rparr>,
          Some (NonCoveredRange (now + int (ttl_millis resp)) [] []))"
  by (simp add: ProcessGetTableLocationsResponse_def ingest_locations_def InsertOrDie_def
      FindOrNull_def discovered_entry_def ok_def Let_def)

theorem empty_response_single_entry_witness:
  "tablet_locations empty_response = [] \<and>
   length (table_map cache_D ''T'') = 3 \<and>
   range_map_after
     (ProcessGetTableLocationsResponse table_T ''c4'' True empty_response 1 1000 cache_D) ''T''
     = Some [([], NonCoveredRange 301000 [] [])]"
  using empty_response_single_entry[of empty_response table_T "''c4''" True 1 1000 cache_D]
  by (simp add: empty_response_def range_map_after_def table_T_def cache_D_def table_map_def)




section \<open>Master lookup permits\<close>

lemma SendRpcSlowPath_holding:
  "has_permit rpc \<Longrightarrow> SendRpcSlowPath rpc c = (a, rpc', c') \<Longrightarrow> c' = c \<and> has_permit rpc'"
  by (auto simp: SendRpcSlowPath_def Let_def)

lemma SendRpcSlowPath_granted:
  "\<not> has_permit rpc \<Longrightarrow> 0 < master_lookup_sem c \<Longrightarrow> SendRpcSlowPath rpc c = (a, rpc', c') \<Longrightarrow>
   master_lookup_sem c' = master_lookup_sem c - 1 \<and> has_permit rpc' \<and> (\<exists>request. a = SentToMaster request)"
  by (auto simp: SendRpcSlowPath_def Let_def AcquireMasterLookupPermit_def)

lemma SendRpcSlowPath_denied:
  "\<not> has_permit rpc \<Longrightarrow> master_lookup_sem c = 0 \<Longrightarrow>
   SendRpcSlowPath rpc c =
     (DelayedRetry (Status TimedOut ''client has too many outstanding requests to the master''),
      rpc, c)"
  by (cases rpc) (simp add: SendRpcSlowPath_def Let_def AcquireMasterLookupPermit_def)

lemma permits_acquired_holding:
  "has_permit rpc \<Longrightarrow> fst (permits_acquired cs rpc) = 0 \<and> has_permit (snd (permits_acquired cs rpc))"
proof (induction cs arbitrary: rpc)
  case Nil
  then show ?case by simp
next
  case (Cons c cs)
  obtain a rpc' c' where step: "SendRpcSlowPath rpc c = (a, rpc', c')"
    by (cases "SendRpcSlowPath rpc c") auto
  from SendRpcSlowPath_holding[OF Cons.prems step] have "c' = c" "has_permit rpc'" by auto
  with Cons.IH[of rpc'] step show ?case by (simp split: prod.splits)
qed

lemma permits_acquired_once:
  "\<not> has_permit rpc \<Longrightarrow>
   fst (permits_acquired cs rpc) \<le> 1 \<and>
   (has_permit (snd (permits_acquired cs rpc)) \<longleftrightarrow> fst (permits_acquired cs rpc) = 1)"
proof (induction cs arbitrary: rpc)
  case Nil
  then show ?case by simp
next
  case (Cons c cs)
  obtain a rpc' c' where step: "SendRpcSlowPath rpc c = (a, rpc', c')"
    by (cases "SendRpcSlowPath rpc c") auto
  show ?case
  proof (cases "master_lookup_sem c = 0")
    case True
    with SendRpcSlowPath_denied[OF Cons.prems True] step have "rpc' = rpc" "c' = c" by auto
    with Cons.IH[OF Cons.prems] step show ?thesis by (simp split: prod.splits)
  next
    case False
    then have pos: "0 < master_lookup_sem c" by simp
    from SendRpcSlowPath_granted[OF Cons.prems pos step]
    have "master_lookup_sem c' = master_lookup_sem c - 1" "has_permit rpc'" by auto
    with permits_acquired_holding[of rpc' cs] step pos show ?thesis
      by (auto split: prod.splits)
  qed
qed

lemma permits_released_iff:
  "permits_released rpc c = (if has_permit rpc then 1 else 0)"
  by (simp add: permits_released_def destroy_LookupRpc_def ReleaseMasterLookupPermit_def)

text \<open>
  C8. Over the life of a \<^verbatim>\<open>LookupRpc\<close>, however often the slow path is entered and
  whatever the semaphore holds each time, the lookup takes at most one permit, and its
  destructor gives back exactly the permits it took (one if it took one, none otherwise).
  A lookup that holds a permit does not touch the semaphore again. A lookup without a
  permit that finds no permit left schedules a delayed retry with
  \<^verbatim>\<open>TimedOut("client has too many outstanding requests to the master")\<close> and sends
  nothing to the master.
\<close>

theorem lookup_permit_once:
  "fst (permits_acquired cs (new_LookupRpc tbl key ltype visibility)) \<le> 1 \<and>
   permits_released (snd (permits_acquired cs (new_LookupRpc tbl key ltype visibility))) c
     = fst (permits_acquired cs (new_LookupRpc tbl key ltype visibility)) \<and>
   (has_permit held \<longrightarrow> snd (snd (SendRpcSlowPath held c)) = c) \<and>
   (\<not> has_permit rpc \<and> master_lookup_sem c = 0 \<longrightarrow>
      SendRpcSlowPath rpc c =
        (DelayedRetry (Status TimedOut ''client has too many outstanding requests to the master''),
         rpc, c))"
proof -
  have new: "\<not> has_permit (new_LookupRpc tbl key ltype visibility)"
    by (simp add: new_LookupRpc_def)
  have 1: "fst (permits_acquired cs (new_LookupRpc tbl key ltype visibility)) \<le> 1"
    using permits_acquired_once[OF new] by blast
  have 2: "permits_released (snd (permits_acquired cs (new_LookupRpc tbl key ltype visibility))) c
     = fst (permits_acquired cs (new_LookupRpc tbl key ltype visibility))"
    using permits_acquired_once[OF new, of cs] by (auto simp: permits_released_iff)
  have 3: "has_permit held \<longrightarrow> snd (snd (SendRpcSlowPath held c)) = c"
    using SendRpcSlowPath_holding[of held c] by (cases "SendRpcSlowPath held c") auto
  have 4: "\<not> has_permit rpc \<and> master_lookup_sem c = 0 \<longrightarrow>
      SendRpcSlowPath rpc c =
        (DelayedRetry (Status TimedOut ''client has too many outstanding requests to the master''),
         rpc, c)"
    using SendRpcSlowPath_denied[of rpc c] by simp
  show ?thesis
    apply (intro conjI)
       apply (rule 1)
      apply (rule 2)
     apply (rule 3)
    apply (rule 4)
    done
qed

theorem lookup_permit_once_witness:
  "has_permit holding_lookup \<and> snd (snd (SendRpcSlowPath holding_lookup busy_cache)) = busy_cache \<and>
   \<not> has_permit point_lookup \<and> master_lookup_sem busy_cache = 0 \<and>
   SendRpcSlowPath point_lookup busy_cache =
     (DelayedRetry (Status TimedOut ''client has too many outstanding requests to the master''),
      point_lookup, busy_cache) \<and>
   fst (permits_acquired [busy_cache, cache_D, cache_D] point_lookup) = 1 \<and>
   permits_released (snd (permits_acquired [busy_cache, cache_D, cache_D] point_lookup)) busy_cache = 1"
  using lookup_permit_once[of "[busy_cache, cache_D, cache_D]" table_T "''c4''" kPoint
      Visibility_VOTERS busy_cache holding_lookup point_lookup]
  by (simp add: point_lookup_def holding_lookup_def busy_cache_def cache_D_def new_LookupRpc_def
      SendRpcSlowPath_def AcquireMasterLookupPermit_def Let_def permits_released_def
      destroy_LookupRpc_def ReleaseMasterLookupPermit_def)

section \<open>The server picker\<close>

lemma PickLeader_stale: "stale (tablet p) \<Longrightarrow> PickLeader p = (LookupStarted, p)"
  by (simp add: PickLeader_def)

lemma PickLeader_leader:
  "\<not> stale (tablet p) \<Longrightarrow> LeaderTServer (tablet p) = Some l \<Longrightarrow> l \<notin> followers p \<Longrightarrow>
   PickLeader p = (Picked l, p)"
  by (simp add: PickLeader_def Let_def)

lemma PickLeader_no_leader:
  "\<not> stale (tablet p) \<Longrightarrow> LeaderTServer (tablet p) = None \<Longrightarrow>
   PickLeader p =
     (case find (\<lambda>s. s \<notin> followers p) (GetRemoteTabletServers (tablet p)) of
        Some l \<Rightarrow> (Picked l, p\<lparr>tablet := MarkTServerAsLeader l (tablet p)\<rparr>)
      | None \<Rightarrow> (LookupStarted, p))"
  by (simp add: PickLeader_def Let_def split: option.splits)

lemma PickLeader_follower_leader:
  "\<not> stale (tablet p) \<Longrightarrow> LeaderTServer (tablet p) = Some l \<Longrightarrow> l \<in> followers p \<Longrightarrow>
   PickLeader p =
     (case find (\<lambda>s. s \<notin> followers p)
             (GetRemoteTabletServers (MarkTServerAsFollower l (tablet p))) of
        Some l' \<Rightarrow>
          (Picked l', p\<lparr>tablet := MarkTServerAsLeader l' (MarkTServerAsFollower l (tablet p))\<rparr>)
      | None \<Rightarrow> (LookupStarted, p\<lparr>tablet := MarkTServerAsFollower l (tablet p)\<rparr>))"
  by (simp add: PickLeader_def Let_def split: option.splits)

lemma find_not_in: "find (\<lambda>s. s \<notin> F) xs = Some l \<Longrightarrow> l \<notin> F"
  by (induction xs) (auto split: if_splits)

lemma PickLeader_followers: "followers (snd (PickLeader p)) = followers p"
proof (cases "stale (tablet p)")
  case True
  then show ?thesis by (simp add: PickLeader_stale)
next
  case False
  show ?thesis
  proof (cases "LeaderTServer (tablet p)")
    case None
    with False show ?thesis by (simp add: PickLeader_no_leader split: option.splits)
  next
    case (Some l)
    with False show ?thesis
      by (cases "l \<in> followers p")
        (simp_all add: PickLeader_leader PickLeader_follower_leader split: option.splits)
  qed
qed

lemma PickLeader_not_follower: "x \<in> followers p \<Longrightarrow> fst (PickLeader p) \<noteq> Picked x"
proof (cases "stale (tablet p)")
  case True
  then show ?thesis by (simp add: PickLeader_stale)
next
  case False
  assume x: "x \<in> followers p"
  show ?thesis
  proof (cases "LeaderTServer (tablet p)")
    case None
    with False x show ?thesis
      by (auto simp: PickLeader_no_leader split: option.splits dest: find_not_in)
  next
    case (Some l)
    with False x show ?thesis
      by (cases "l \<in> followers p")
        (auto simp: PickLeader_leader PickLeader_follower_leader split: option.splits
          dest: find_not_in)
  qed
qed

lemma MarkTServerAsLeader_keeps_follower:
  "\<forall>r \<in> set (replicas t). ts r = x \<longrightarrow> role r = FOLLOWER \<Longrightarrow> l \<noteq> x \<Longrightarrow>
   r \<in> set (replicas (MarkTServerAsLeader l t)) \<Longrightarrow> ts r = x \<Longrightarrow> role r = FOLLOWER"
  by (auto simp: MarkTServerAsLeader_def split: if_splits)

lemma follower_after_mark:
  "r \<in> set (map (\<lambda>rep. if ts rep = x then rep\<lparr>role := FOLLOWER\<rparr> else rep) rs) \<Longrightarrow>
   ts r = x \<Longrightarrow> role r = FOLLOWER"
proof -
  assume "r \<in> set (map (\<lambda>rep. if ts rep = x then rep\<lparr>role := FOLLOWER\<rparr> else rep) rs)"
  then obtain y where r: "r = (if ts y = x then y\<lparr>role := FOLLOWER\<rparr> else y)"
    unfolding set_map image_iff by (elim bexE)
  assume rx: "ts r = x"
  show ?thesis
  proof (cases "ts y = x")
    case True
    with r show ?thesis by simp
  next
    case False
    with r rx show ?thesis by simp
  qed
qed

lemma MarkTServerAsFollower_role:
  "r \<in> set (replicas (MarkTServerAsFollower x t)) \<Longrightarrow> ts r = x \<Longrightarrow> role r = FOLLOWER"
  using follower_after_mark[of r x "replicas t"] by (simp add: MarkTServerAsFollower_def)

lemma PickLeader_demotes:
  assumes x: "x \<in> followers p" and fresh: "\<not> stale (tablet p)"
    and lead: "LeaderTServer (tablet p) = Some x"
    and r: "r \<in> set (replicas (tablet (snd (PickLeader p))))" and rx: "ts r = x"
  shows "role r = FOLLOWER"
proof -
  let ?t1 = "MarkTServerAsFollower x (tablet p)"
  have t1: "\<forall>r \<in> set (replicas ?t1). ts r = x \<longrightarrow> role r = FOLLOWER"
    using MarkTServerAsFollower_role[of _ x "tablet p"] by blast
  note pick = PickLeader_follower_leader[OF fresh lead x]
  show ?thesis
  proof (cases "find (\<lambda>s. s \<notin> followers p) (GetRemoteTabletServers ?t1)")
    case None
    have "tablet (snd (PickLeader p)) = ?t1"
      unfolding pick None by simp
    with r have "r \<in> set (replicas ?t1)" by simp
    with t1 rx show ?thesis by blast
  next
    case (Some l)
    have eq: "tablet (snd (PickLeader p)) = MarkTServerAsLeader l ?t1"
      unfolding pick Some by simp
    from find_not_in[OF Some] x have "l \<noteq> x" by blast
    from r eq have "r \<in> set (replicas (MarkTServerAsLeader l ?t1))" by simp
    from MarkTServerAsLeader_keeps_follower[OF t1 \<open>l \<noteq> x\<close> this rx] show ?thesis .
  qed
qed

lemma servers_picked_not_follower:
  "x \<in> followers p \<Longrightarrow> \<forall>call \<in> set calls. \<not> is_lookup_completion call \<Longrightarrow>
   x \<notin> set (servers_picked calls p)"
proof (induction calls arbitrary: p)
  case Nil
  then show ?case by simp
next
  case (Cons call calls)
  show ?case
  proof (cases call)
    case CallPickLeader
    obtain out p' where step: "PickLeader p = (out, p')" by (cases "PickLeader p") auto
    with PickLeader_followers[of p] Cons.prems have in': "x \<in> followers p'" by simp
    from PickLeader_not_follower[OF Cons.prems(1)] step have "out \<noteq> Picked x" by simp
    with Cons.IH[OF in'] Cons.prems(2) step CallPickLeader show ?thesis
      by (cases out) auto
  next
    case (CallMarkServerFailed r)
    with Cons show ?thesis by (cases r) (auto simp: MarkServerFailed_def)
  next
    case (CallMarkReplicaNotLeader r)
    with Cons show ?thesis by (cases r) (auto simp: MarkReplicaNotLeader_def)
  next
    case (CallMarkResourceNotFound r)
    with Cons show ?thesis by (auto simp: MarkResourceNotFound_def)
  next
    case (CallLookUpTabletCb s)
    with Cons.prems show ?thesis by simp
  next
    case (TabletChanged rs st)
    with Cons show ?thesis by auto
  qed
qed

text \<open>
  C2. A server \<open>x\<close> in the followers set is never the server \<^verbatim>\<open>PickLeader\<close> picks, and
  \<^verbatim>\<open>PickLeader\<close> leaves the set as it is; when \<open>x\<close> is the cached leader of a tablet that
  is not stale, every replica on \<open>x\<close> has role Follower afterwards. So after
  \<^verbatim>\<open>MarkReplicaNotLeader(x)\<close>, over any calls of the picker and any changes of the shared
  tablet with no \<^verbatim>\<open>LookUpTabletCb\<close> among them, no \<^verbatim>\<open>PickLeader\<close> hands \<open>x\<close> to the
  callback.
\<close>

theorem sticky_follower:
  "(x \<in> followers p \<longrightarrow>
      fst (PickLeader p) \<noteq> Picked x \<and>
      followers (snd (PickLeader p)) = followers p \<and>
      (\<not> stale (tablet p) \<and> LeaderTServer (tablet p) = Some x \<longrightarrow>
         (\<forall>r \<in> set (replicas (tablet (snd (PickLeader p)))). ts r = x \<longrightarrow> role r = FOLLOWER))) \<and>
   (MarkReplicaNotLeader (Some x) p0 = Inr p1 \<and>
    (\<forall>call \<in> set calls. \<not> is_lookup_completion call) \<longrightarrow>
      x \<notin> set (servers_picked calls p1))"
proof (intro conjI impI ballI)
  assume "x \<in> followers p"
  then show "fst (PickLeader p) \<noteq> Picked x" by (rule PickLeader_not_follower)
next
  show "followers (snd (PickLeader p)) = followers p" by (rule PickLeader_followers)
next
  fix r
  assume "x \<in> followers p" "\<not> stale (tablet p) \<and> LeaderTServer (tablet p) = Some x"
    "r \<in> set (replicas (tablet (snd (PickLeader p))))" "ts r = x"
  then show "role r = FOLLOWER" using PickLeader_demotes[of x p r] by simp
next
  assume a: "MarkReplicaNotLeader (Some x) p0 = Inr p1 \<and>
    (\<forall>call \<in> set calls. \<not> is_lookup_completion call)"
  then have "x \<in> followers p1" by (auto simp: MarkReplicaNotLeader_def)
  with a show "x \<notin> set (servers_picked calls p1)"
    using servers_picked_not_follower[of x p1 calls] by simp
qed

theorem sticky_follower_witness:
  "1 \<in> followers picker_1 \<and> \<not> stale (tablet picker_1) \<and>
   LeaderTServer (tablet picker_1) = Some 1 \<and>
   MarkReplicaNotLeader (Some 1) picker_0 = Inr picker_1 \<and>
   fst (PickLeader picker_1) = Picked 2 \<and>
   servers_picked
     [CallPickLeader, CallPickLeader, CallMarkServerFailed (Some 2), CallPickLeader,
      TabletChanged (replicas tablet_B) False, CallPickLeader]
     picker_1 = [2, 2, 3, 2]"
  using sticky_follower[of 1 picker_1 picker_0 picker_1
      "[CallPickLeader, CallPickLeader, CallMarkServerFailed (Some 2), CallPickLeader,
        TabletChanged (replicas tablet_B) False, CallPickLeader]"]
  by (simp add: picker_0_def picker_1_def tablet_B_def MarkReplicaNotLeader_def PickLeader_def
      LeaderTServer_def Let_def MarkTServerAsFollower_def MarkTServerAsLeader_def
      GetRemoteTabletServers_def MarkServerFailed_def MarkReplicaFailed_def)

section \<open>The fast path\<close>

lemma FindFloorOrNull_mem:
  "FindFloorOrNull m k = Some (k', e) \<Longrightarrow> (k', e) \<in> set m \<and> k' \<le> k"
  by (induction m arbitrary: k' e) (auto split: option.splits if_splits)

lemma HasLeader_iff:
  "HasLeader t \<longleftrightarrow> (\<exists>rep \<in> set (replicas t). role rep = LEADER \<and> \<not> failed rep)"
proof -
  have "first_leader rs \<noteq> None \<longleftrightarrow> (\<exists>rep \<in> set rs. role rep = LEADER \<and> \<not> failed rep)" for rs :: "'a RemoteReplica list"
    by (induction rs) auto
  then show ?thesis by (simp add: HasLeader_def LeaderTServer_def)
qed

lemma fast_path_entry:
  assumes "LookupEntryByKeyFastPath c now tbl k = Some entry"
  shows "\<exists>k'. (k', entry) \<in> set (table_map c (table_id tbl)) \<and>
         \<not> entry_stale (tablet_objects c) now entry \<and> Contains (tablet_objects c) entry k"
proof -
  from assms obtain m k' where m: "tablets_by_table_and_key c (table_id tbl) = Some m"
    and fl: "FindFloorOrNull m k = Some (k', entry)"
    and ok: "\<not> entry_stale (tablet_objects c) now entry" "Contains (tablet_objects c) entry k"
    by (auto simp: LookupEntryByKeyFastPath_def split: option.splits if_splits)
  from FindFloorOrNull_mem[OF fl] m have "(k', entry) \<in> set (table_map c (table_id tbl))"
    by (simp add: table_map_def)
  with ok show ?thesis by blast
qed

lemma gaps_above_less:
  assumes "LookupEntryByKeyFastPath c now tbl k = Some (NonCoveredRange e lo hi)" and "hi \<noteq> []"
  shows "gaps_above c tbl hi < gaps_above c tbl k \<and> k < hi"
proof -
  let ?m = "table_map c (table_id tbl)"
  let ?P = "\<lambda>k0 (k', e'). is_non_covered_range e' \<and> k0 < upper_bound_partition_key (tablet_objects c) e'"
  from fast_path_entry[OF assms(1)] obtain k' where
    mem: "(k', NonCoveredRange e lo hi) \<in> set ?m"
    and cont: "Contains (tablet_objects c) (NonCoveredRange e lo hi) k" by blast
  from cont assms(2) have lt: "k < hi" by (simp add: Contains_def)
  have sub: "filter (?P hi) ?m = filter (?P hi) (filter (?P k) ?m)"
    using lt by (auto intro!: filter_cong)
  have "(k', NonCoveredRange e lo hi) \<in> set (filter (?P k) ?m)" using mem lt by simp
  moreover have "\<not> ?P hi (k', NonCoveredRange e lo hi)" by simp
  ultimately have "length (filter (?P hi) (filter (?P k) ?m)) < length (filter (?P k) ?m)"
    by (rule length_filter_less)
  with sub lt show ?thesis by (simp add: gaps_above_def)
qed

lemma DoFastPathLookup_result:
  "\<exists>s k r. DoFastPathLookup c now tbl pk ltype = Some (s, k, r) \<and> pk \<le> k \<and>
     (status_code s = OK \<and> (\<exists>ref. r = Some ref \<and> HasLeader (tablet_objects c ref)) \<or>
      status_code s = NotFound \<and> r = None \<or>
      status_code s = Incomplete \<and> r = None)"
proof (induction "gaps_above c tbl pk" arbitrary: pk rule: less_induct)
  case less
  show ?case
  proof (cases "LookupEntryByKeyFastPath c now tbl pk")
    case None
    then show ?thesis by (subst DoFastPathLookup.simps) simp
  next
    case (Some entry)
    show ?thesis
    proof (cases entry)
      case (CoveredEntry e ref)
      with Some show ?thesis by (subst DoFastPathLookup.simps) simp
    next
      case (NonCoveredRange e lo hi)
      show ?thesis
      proof (cases "ltype = kPoint \<or> hi = []")
        case True
        with Some NonCoveredRange show ?thesis by (subst DoFastPathLookup.simps) auto
      next
        case False
        with Some NonCoveredRange gaps_above_less[of c now tbl pk e lo hi]
        have dec: "gaps_above c tbl hi < gaps_above c tbl pk" and lt: "pk < hi" by auto
        from less[OF dec] obtain s k r where
          rec: "DoFastPathLookup c now tbl hi ltype = Some (s, k, r)" and "hi \<le> k"
          and res: "status_code s = OK \<and> (\<exists>ref. r = Some ref \<and> HasLeader (tablet_objects c ref)) \<or>
            status_code s = NotFound \<and> r = None \<or> status_code s = Incomplete \<and> r = None"
          by blast
        from lt \<open>hi \<le> k\<close> have "pk \<le> k" by simp
        moreover have "DoFastPathLookup c now tbl pk ltype = Some (s, k, r)"
          using Some NonCoveredRange False rec by (subst DoFastPathLookup.simps) simp
        ultimately show ?thesis using res by blast
      qed
    qed
  qed
qed

text \<open>
  C9. \<^verbatim>\<open>DoFastPathLookup\<close> returns for every cache, time, table, starting key and lookup
  type, with status OK, NotFound or Incomplete, and the key it leaves is not below the
  starting key. Each round either returns or moves the key to the upper bound of a
  non-covered entry that contains it, which lies above the key, so fewer entries of the
  finite range map have their upper bound above the key in the next round.
\<close>

theorem DoFastPathLookup_terminates:
  "\<exists>s k r. DoFastPathLookup c now tbl pk ltype = Some (s, k, r) \<and> pk \<le> k \<and>
     (status_code s = OK \<or> status_code s = NotFound \<or> status_code s = Incomplete)"
  using DoFastPathLookup_result[of c now tbl pk ltype] by blast

text \<open>
  C3. When \<^verbatim>\<open>DoFastPathLookup\<close> returns OK it hands back a tablet that has a replica with
  role Leader that is not failed. When the floor entry of the key is a covered entry that
  is not stale and its tablet has no such replica, \<^verbatim>\<open>DoFastPathLookup\<close> returns Incomplete,
  with the key unchanged and no tablet.
\<close>

theorem fast_path_needs_leader:
  "(DoFastPathLookup c now tbl pk ltype = Some (s, k, r) \<and> status_code s = OK \<longrightarrow>
      (\<exists>ref. r = Some ref \<and>
         (\<exists>rep \<in> set (replicas (tablet_objects c ref)). role rep = LEADER \<and> \<not> failed rep))) \<and>
   (tablets_by_table_and_key c2 (table_id tbl2) = Some m \<and>
    FindFloorOrNull m pk2 = Some (k0, CoveredEntry e ref0) \<and>
    \<not> entry_stale (tablet_objects c2) now2 (CoveredEntry e ref0) \<and>
    \<not> (\<exists>rep \<in> set (replicas (tablet_objects c2 ref0)). role rep = LEADER \<and> \<not> failed rep) \<longrightarrow>
      DoFastPathLookup c2 now2 tbl2 pk2 ltype2 = Some (Status Incomplete [], pk2, None))"
proof (intro conjI impI)
  assume a: "DoFastPathLookup c now tbl pk ltype = Some (s, k, r) \<and> status_code s = OK"
  with DoFastPathLookup_result[of c now tbl pk ltype]
  have "\<exists>ref. r = Some ref \<and> HasLeader (tablet_objects c ref)" by auto
  then show "\<exists>ref. r = Some ref \<and>
         (\<exists>rep \<in> set (replicas (tablet_objects c ref)). role rep = LEADER \<and> \<not> failed rep)"
    by (simp add: HasLeader_iff)
next
  assume a: "tablets_by_table_and_key c2 (table_id tbl2) = Some m \<and>
    FindFloorOrNull m pk2 = Some (k0, CoveredEntry e ref0) \<and>
    \<not> entry_stale (tablet_objects c2) now2 (CoveredEntry e ref0) \<and>
    \<not> (\<exists>rep \<in> set (replicas (tablet_objects c2 ref0)). role rep = LEADER \<and> \<not> failed rep)"
  then have nl: "\<not> HasLeader (tablet_objects c2 ref0)" by (simp add: HasLeader_iff)
  from a have "LookupEntryByKeyFastPath c2 now2 tbl2 pk2 = None \<or>
      LookupEntryByKeyFastPath c2 now2 tbl2 pk2 = Some (CoveredEntry e ref0)"
    by (simp add: LookupEntryByKeyFastPath_def)
  with nl show "DoFastPathLookup c2 now2 tbl2 pk2 ltype2 = Some (Status Incomplete [], pk2, None)"
    by (subst DoFastPathLookup.simps) auto
qed

theorem fast_path_needs_leader_witness:
  "DoFastPathLookup cache_D 1000 table_T ''c4'' kLowerBound = Some (Status OK [], ''c5'', Some 0) \<and>
   status_code (Status OK []) = OK \<and>
   HasLeader (tablet_objects cache_D 0) \<and>
   tablets_by_table_and_key cache_D_failed (table_id table_T) = Some range_map_D \<and>
   FindFloorOrNull range_map_D ''c5'' = Some (''c5'', CoveredEntry 60000 0) \<and>
   \<not> entry_stale (tablet_objects cache_D_failed) 1000 (CoveredEntry 60000 0) \<and>
   \<not> HasLeader (tablet_objects cache_D_failed 0) \<and>
   DoFastPathLookup cache_D_failed 1000 table_T ''c5'' kLowerBound
     = Some (Status Incomplete [], ''c5'', None)"
proof -
  have 1: "DoFastPathLookup cache_D 1000 table_T ''c4'' kLowerBound
      = Some (Status OK [], ''c5'', Some 0)"
    by code_simp
  have 2: "tablets_by_table_and_key cache_D_failed (table_id table_T) = Some range_map_D"
    by (simp add: cache_D_failed_def cache_D_def table_T_def range_map_D_def)
  have 3: "FindFloorOrNull range_map_D ''c5'' = Some (''c5'', CoveredEntry 60000 0)"
    by (simp add: range_map_D_def)
  have 4: "\<not> entry_stale (tablet_objects cache_D_failed) 1000 (CoveredEntry 60000 0)"
    by (simp add: cache_D_failed_def cache_D_def tablet_D_def MarkReplicaFailed_def)
  have 5: "\<not> (\<exists>rep \<in> set (replicas (tablet_objects cache_D_failed 0)).
              role rep = LEADER \<and> \<not> failed rep)"
    by (simp add: cache_D_failed_def cache_D_def tablet_D_def MarkReplicaFailed_def)
  have 6: "HasLeader (tablet_objects cache_D 0)" "\<not> HasLeader (tablet_objects cache_D_failed 0)"
    by (simp_all add: cache_D_failed_def cache_D_def tablet_D_def MarkReplicaFailed_def
        HasLeader_def LeaderTServer_def)
  from fast_path_needs_leader[of cache_D 1000 table_T "''c4''" kLowerBound "Status OK []"
      "''c5''" "Some 0" cache_D_failed table_T range_map_D "''c5''" "''c5''" 60000 0 1000
      kLowerBound] 1 2 3 4 5
  have "DoFastPathLookup cache_D_failed 1000 table_T ''c5'' kLowerBound
     = Some (Status Incomplete [], ''c5'', None)" by simp
  with 1 2 3 4 6 show ?thesis by simp
qed

section \<open>Range maps\<close>

text \<open>
  The association list stands for the ordered map: \<^verbatim>\<open>FindFloorOrNull\<close> finds the greatest
  key not above the key asked for, and inserting keeps the keys in order and distinct.
\<close>

lemma FindFloorOrNull_greatest:
  "FindFloorOrNull m k = Some (k', e) \<Longrightarrow> (k'', e'') \<in> set m \<Longrightarrow> k'' \<le> k \<Longrightarrow> k'' \<le> k'"
proof (induction m arbitrary: k' e)
  case Nil
  then show ?case by simp
next
  case (Cons x m)
  obtain a b where x: "x = (a, b)" by (cases x)
  show ?case
  proof (cases "FindFloorOrNull m k")
    case None
    have no: "\<not> k0 \<le> k" if "(k0, e0) \<in> set m" for k0 e0
      using that None by (induction m) (auto split: option.splits if_splits)
    from Cons.prems None x show ?thesis by (auto split: if_splits dest: no)
  next
    case (Some y)
    obtain c d where y: "y = (c, d)" by (cases y)
    from Cons.IH[of c d] Some y have IH: "(k'', e'') \<in> set m \<Longrightarrow> k'' \<le> c" using Cons.prems(3) by simp
    from Cons.prems Some x y IH show ?thesis by (auto split: if_splits)
  qed
qed

lemma FindFloorOrNull_None:
  "FindFloorOrNull m k = None \<longleftrightarrow> (\<forall>(k', e) \<in> set m. \<not> k' \<le> k)"
  by (induction m) (auto split: option.splits if_splits)

lemma keys_put_entry: "fst ` set (put_entry k e m) = insert k (fst ` set m)"
proof (induction m)
  case Nil
  then show ?case by simp
next
  case (Cons x m)
  obtain a b where x: "x = (a, b)" by (cases x)
  have "fst ` set (put_entry k e ((a, b) # m)) = insert k (insert a (fst ` set m))"
  proof (cases "k < a")
    case True
    then show ?thesis by simp
  next
    case False
    show ?thesis
    proof (cases "k = a")
      case True
      then show ?thesis by simp
    next
      case ne: False
      with False Cons.IH show ?thesis by (simp add: insert_commute)
    qed
  qed
  with x show ?case by simp
qed

lemma put_entry_sorted:
  "sorted (map fst m) \<Longrightarrow> sorted (map fst (put_entry k e m))"
proof (induction m)
  case Nil
  then show ?case by simp
next
  case (Cons x m)
  obtain a b where x: "x = (a, b)" by (cases x)
  from Cons.prems x have sm: "sorted (map fst m)" and le: "\<forall>y \<in> set m. a \<le> fst y" by auto
  show ?case
  proof (cases "k < a")
    case True
    with Cons.prems x le show ?thesis by (auto intro: order.trans less_imp_le)
  next
    case False
    show ?thesis
    proof (cases "k = a")
      case True
      with Cons.prems x show ?thesis by simp
    next
      case ne: False
      with False have "a \<le> k" by simp
      with False ne x Cons.IH[OF sm] le keys_put_entry[of k e m] show ?thesis by auto
    qed
  qed
qed

lemma put_entry_distinct:
  "sorted (map fst m) \<Longrightarrow> distinct (map fst m) \<Longrightarrow> distinct (map fst (put_entry k e m))"
proof (induction m)
  case Nil
  then show ?case by simp
next
  case (Cons x m)
  obtain a b where x: "x = (a, b)" by (cases x)
  from Cons.prems x have sm: "sorted (map fst m)" "distinct (map fst m)"
    and le: "\<forall>y \<in> set m. a \<le> fst y" and na: "a \<notin> fst ` set m" by auto
  show ?case
  proof (cases "k < a")
    case True
    with le have "k \<notin> fst ` set m" by auto
    with True Cons.prems x show ?thesis by auto
  next
    case False
    show ?thesis
    proof (cases "k = a")
      case True
      with Cons.prems x show ?thesis by simp
    next
      case ne: False
      with False x Cons.IH[OF sm] na keys_put_entry[of k e m] show ?thesis by auto
    qed
  qed
qed

lemma FindOrNull_put_entry:
  "FindOrNull (put_entry k e m) k' = (if k' = k then Some e else FindOrNull m k')"
  unfolding FindOrNull_def by (induction m) auto

lemma FindOrNull_filter:
  "FindOrNull (filter (\<lambda>(k, e). P k) m) k' = (if P k' then FindOrNull m k' else None)"
  unfolding FindOrNull_def by (induction m) auto

lemma FindOrNull_set_entry:
  "k' \<noteq> k \<Longrightarrow> FindOrNull (set_entry k e m) k' = FindOrNull m k'"
  unfolding FindOrNull_def set_entry_def by (induction m) auto

lemma FindOrNull_None_iff: "FindOrNull m k = None \<longleftrightarrow> k \<notin> fst ` set m"
  unfolding FindOrNull_def by (simp add: map_of_eq_None_iff)

lemma InsertOrDie_result:
  "InsertOrDie k e m = Inr m' \<Longrightarrow>
   FindOrNull m' k' = (if k' = k then Some e else FindOrNull m k')"
  by (auto simp: InsertOrDie_def FindOrNull_put_entry split: option.splits)

lemma erase_below_find:
  "FindOrNull (erase_below hi m) k = (if hi \<le> k then FindOrNull m k else None)"
  unfolding erase_below_def by (rule FindOrNull_filter)

lemma erase_between_find:
  "FindOrNull (erase_between lo hi m) k = (if lo \<le> k \<and> k < hi then None else FindOrNull m k)"
  unfolding erase_between_def using FindOrNull_filter[of "\<lambda>k. \<not> (lo \<le> k \<and> k < hi)" m k] by simp

lemma erase_from_find:
  "FindOrNull (erase_from lo m) k = (if k < lo then FindOrNull m k else None)"
  unfolding erase_from_def by (rule FindOrNull_filter)

lemma non_covered_gap_frame:
  "non_covered_gap expiration lo hi m = Inr m' \<Longrightarrow> \<not> (lo \<le> k \<and> k < hi) \<Longrightarrow> lo < hi \<Longrightarrow>
   FindOrNull m' k = FindOrNull m k"
  unfolding non_covered_gap_def
  by (auto dest!: InsertOrDie_result[where k' = k] simp: erase_between_find)

lemma refresh_known_tablet_frame:
  "refresh_known_tablet expiration infos t remote c m = Inr (s, c', m') \<Longrightarrow>
   k \<noteq> pb_partition_key_start t \<Longrightarrow> FindOrNull m' k = FindOrNull m k"
  unfolding refresh_known_tablet_def Let_def
  by (auto split: sum.splits option.splits if_splits prod.splits
      dest!: InsertOrDie_result[where k' = k] simp: FindOrNull_set_entry)

lemma cache_new_tablet_frame:
  "cache_new_tablet expiration infos t c m = Inr (s, c', m') \<Longrightarrow>
   k \<noteq> pb_partition_key_start t \<Longrightarrow>
   (pb_partition_key_end t = [] \<longrightarrow> k < pb_partition_key_start t) \<Longrightarrow>
   \<not> (pb_partition_key_start t \<le> k \<and> k < pb_partition_key_end t) \<Longrightarrow>
   FindOrNull m' k = FindOrNull m k"
  unfolding cache_new_tablet_def Let_def
  by (auto split: sum.splits option.splits if_splits prod.splits
      dest!: InsertOrDie_result[where k' = k] simp: erase_between_find erase_from_find)

lemma ingest_tablet_frame:
  assumes "ingest_tablet expiration infos t c m lu = Inr (s, c', m', lu')"
    and "\<not> (lu \<le> k \<and> k < pb_partition_key_start t)"
    and "k \<noteq> pb_partition_key_start t"
    and "pb_partition_key_end t = [] \<longrightarrow> k < pb_partition_key_start t"
    and "\<not> (pb_partition_key_start t \<le> k \<and> k < pb_partition_key_end t)"
  shows "FindOrNull m' k = FindOrNull m k \<and> lu' = pb_partition_key_end t"
proof -
  from assms(1) obtain m1 where
    gap: "(if lu < pb_partition_key_start t
           then non_covered_gap expiration lu (pb_partition_key_start t) m else Inr m) = Inr m1"
    and body: "(case tablets_by_id c (pb_tablet_id t) of
                   Some remote \<Rightarrow> refresh_known_tablet expiration infos t remote c m1
                 | None \<Rightarrow> cache_new_tablet expiration infos t c m1) = Inr (s, c', m')"
    and lu': "lu' = pb_partition_key_end t"
    unfolding ingest_tablet_def by (auto split: sum.splits prod.splits)
  from gap assms(2) have 1: "FindOrNull m1 k = FindOrNull m k"
    by (auto split: if_splits dest: non_covered_gap_frame[where k = k])
  from body assms(3,4,5) have 2: "FindOrNull m' k = FindOrNull m1 k"
    by (auto split: option.splits
        dest: refresh_known_tablet_frame[where k = k] cache_new_tablet_frame[where k = k])
  from 1 2 lu' show ?thesis by simp
qed

section \<open>Ingestion of tablet locations\<close>

lemma above_empty_key: "(k::string) \<noteq> [] \<longleftrightarrow> [] < k"
  by (cases k) auto

lemma ingest_tablet_upper:
  "ingest_tablet expiration infos t c m lu = Inr (s, c', m', lu') \<Longrightarrow> lu' = pb_partition_key_end t"
  unfolding ingest_tablet_def by (auto split: sum.splits prod.splits)

lemma ingest_tablets_last_upper:
  "ingest_tablets expiration infos locs c m lu = Inr (s, c', m', lu') \<Longrightarrow> ok s \<Longrightarrow> locs \<noteq> [] \<Longrightarrow>
   lu' = pb_partition_key_end (last locs)"
proof (induction locs arbitrary: c m lu)
  case Nil
  then show ?case by simp
next
  case (Cons t rest)
  from Cons.prems(1) obtain s1 c1 m1 lu1 where
    step: "ingest_tablet expiration infos t c m lu = Inr (s1, c1, m1, lu1)"
    by (auto split: sum.splits)
  from ingest_tablet_upper[OF step] have lu1: "lu1 = pb_partition_key_end t" .
  show ?case
  proof (cases "ok s1")
    case False
    with Cons.prems step show ?thesis by simp
  next
    case True
    with Cons.prems(1) step have rec:
      "ingest_tablets expiration infos rest c1 m1 lu1 = Inr (s, c', m', lu')" by simp
    show ?thesis
    proof (cases rest)
      case Nil
      with rec lu1 show ?thesis by simp
    next
      case (Cons b rest')
      with Cons.IH[OF rec Cons.prems(2)] show ?thesis by simp
    qed
  qed
qed

lemma ingest_tablets_keeps_above:
  "ingest_tablets expiration infos locs c m lu = Inr (s, c', m', lu') \<Longrightarrow>
   \<forall>t \<in> set locs. pb_partition_key_start t < pb_partition_key_end t \<and> pb_partition_key_end t \<le> k \<Longrightarrow>
   FindOrNull m' k = FindOrNull m k"
proof (induction locs arbitrary: c m lu)
  case Nil
  then show ?case by simp
next
  case (Cons t rest)
  from Cons.prems(1) obtain s1 c1 m1 lu1 where
    step: "ingest_tablet expiration infos t c m lu = Inr (s1, c1, m1, lu1)"
    by (auto split: sum.splits)
  from Cons.prems(2) have t: "pb_partition_key_start t < pb_partition_key_end t"
    "pb_partition_key_end t \<le> k" by auto
  then have ne: "pb_partition_key_end t \<noteq> []" by auto
  from t have lt: "pb_partition_key_start t < k" by (rule less_le_trans)
  have 1: "FindOrNull m1 k = FindOrNull m k"
  proof -
    have a: "\<not> (lu \<le> k \<and> k < pb_partition_key_start t)" using lt by auto
    have b: "k \<noteq> pb_partition_key_start t" using lt by auto
    have c: "pb_partition_key_end t = [] \<longrightarrow> k < pb_partition_key_start t" using ne by simp
    have d: "\<not> (pb_partition_key_start t \<le> k \<and> k < pb_partition_key_end t)" using t(2) by auto
    from ingest_tablet_frame[OF step a b c d] show ?thesis by simp
  qed
  show ?case
  proof (cases "ok s1")
    case False
    with Cons.prems(1) step 1 show ?thesis by simp
  next
    case True
    with Cons.prems(1) step have rec:
      "ingest_tablets expiration infos rest c1 m1 lu1 = Inr (s, c', m', lu')" by simp
    from Cons.IH[OF rec] Cons.prems(2) 1 show ?thesis by simp
  qed
qed

lemma ingest_tablets_keeps_empty_key:
  "ingest_tablets expiration infos locs c m lu = Inr (s, c', m', lu') \<Longrightarrow>
   lu \<noteq> [] \<Longrightarrow> (locs \<noteq> [] \<longrightarrow> lu \<le> pb_partition_key_start (hd locs)) \<Longrightarrow> ascending locs \<Longrightarrow>
   FindOrNull m' [] = FindOrNull m []"
proof (induction locs arbitrary: c m lu)
  case Nil
  then show ?case by simp
next
  case (Cons t rest)
  from Cons.prems(1) obtain s1 c1 m1 lu1 where
    step: "ingest_tablet expiration infos t c m lu = Inr (s1, c1, m1, lu1)"
    by (auto split: sum.splits)
  from Cons.prems(2,3) have lo: "pb_partition_key_start t \<noteq> []" by auto
  have 1: "FindOrNull m1 [] = FindOrNull m []" and lu1: "lu1 = pb_partition_key_end t"
  proof -
    have a: "\<not> (lu \<le> [] \<and> [] < pb_partition_key_start t)" using Cons.prems(2) by simp
    have b: "[] \<noteq> pb_partition_key_start t" using lo by simp
    have c: "pb_partition_key_end t = [] \<longrightarrow> [] < pb_partition_key_start t"
      using lo by (simp add: above_empty_key)
    have d: "\<not> (pb_partition_key_start t \<le> [] \<and> [] < pb_partition_key_end t)" using lo by simp
    from ingest_tablet_frame[OF step a b c d]
    show "FindOrNull m1 [] = FindOrNull m []" "lu1 = pb_partition_key_end t" by simp_all
  qed
  show ?case
  proof (cases "ok s1")
    case False
    with Cons.prems(1) step 1 show ?thesis by simp
  next
    case True
    with Cons.prems(1) step have rec:
      "ingest_tablets expiration infos rest c1 m1 lu1 = Inr (s, c', m', lu')" by simp
    show ?thesis
    proof (cases rest)
      case Nil
      with rec 1 show ?thesis by simp
    next
      case (Cons b rest')
      with Cons.prems(4) lu1 have "lu1 \<noteq> []" "lu1 \<le> pb_partition_key_start (hd rest)"
        "ascending rest" by auto
      with Cons.IH[OF rec] 1 show ?thesis by simp
    qed
  qed
qed

lemma ascending_uppers:
  "ascending locs \<Longrightarrow> \<forall>t \<in> set locs. pb_partition_key_start t < pb_partition_key_end t \<Longrightarrow>
   t \<in> set locs \<Longrightarrow> pb_partition_key_end t \<le> pb_partition_key_end (last locs)"
proof (induction locs arbitrary: t rule: ascending.induct)
  case 1
  then show ?case by simp
next
  case (2 t)
  then show ?case by simp
next
  case (3 a b rest)
  have IH: "pb_partition_key_end u \<le> pb_partition_key_end (last (b # rest))"
    if "u \<in> set (b # rest)" for u
    using "3.IH"[of u] "3.prems"(1,2) that by simp
  from "3.prems" have "pb_partition_key_end a \<le> pb_partition_key_start b"
    "pb_partition_key_start b < pb_partition_key_end b" by auto
  then have ab: "pb_partition_key_end a \<le> pb_partition_key_end b" by simp
  have last: "last (a # b # rest) = last (b # rest)" by simp
  show ?case
  proof (cases "t = a")
    case True
    from IH[of b] ab True show ?thesis unfolding last by simp
  next
    case False
    with "3.prems"(3) have "t \<in> set (b # rest)" by simp
    from IH[OF this] show ?thesis unfolding last .
  qed
qed

lemma table_map_update:
  "table_map (c\<lparr>tablets_by_table_and_key := (tablets_by_table_and_key c)(tid \<mapsto> m)\<rparr>) tid = m"
  by (simp add: table_map_def)

lemma Process_nonempty_cases:
  assumes ret: "ProcessGetTableLocationsResponse tbl pk ex resp mx now c = Inr (s, c', eo)"
    and locs: "tablet_locations resp = first # others"
  obtains c1 m1 s2 c2 m2 lu where
    "initial_non_covered_range (now + int (ttl_millis resp)) pk (pb_partition_key_start first)
        (table_map c (table_id tbl)) = Inr m1"
    "ingest_tablets (now + int (ttl_millis resp)) (ts_infos resp) (first # others) c1 m1
        (pb_partition_key_start first) = Inr (s2, c2, m2, lu)"
    "ok s2 \<longrightarrow> ok s \<and> trailing_non_covered_range (now + int (ttl_millis resp)) lu
        (length (tablet_locations resp)) mx m2 = Inr (table_map c' (table_id tbl))"
    "\<not> ok s2 \<longrightarrow> s = s2 \<and> table_map c' (table_id tbl) = m2"
proof -
  let ?e = "now + int (ttl_millis resp)"
  from ret obtain s0 c0 m0 where
    ing: "ingest_locations ?e pk resp mx c (table_map c (table_id tbl)) = Inr (s0, c0, m0)"
    and fin: "(if \<not> ok s0 then s = s0 else ok s) \<and> table_map c' (table_id tbl) = m0"
    unfolding ProcessGetTableLocationsResponse_def Let_def
    by (auto split: sum.splits prod.splits if_splits simp: table_map_update ok_def)
  from ing locs obtain c1 m1 s2 c2 m2 lu where
    1: "initial_non_covered_range ?e pk (pb_partition_key_start first)
        (table_map c (table_id tbl)) = Inr m1"
    and 2: "ingest_tablets ?e (ts_infos resp) (first # others) c1 m1
        (pb_partition_key_start first) = Inr (s2, c2, m2, lu)"
    and 3: "if \<not> ok s2 then s0 = s2 \<and> m0 = m2
            else ok s0 \<and> trailing_non_covered_range ?e lu (length (tablet_locations resp)) mx m2 = Inr m0"
    unfolding ingest_locations_def
    by (auto split: sum.splits prod.splits if_splits simp: ok_def simp del: ingest_tablets.simps)
  from fin 3 have "ok s2 \<longrightarrow> ok s \<and> trailing_non_covered_range ?e lu
        (length (tablet_locations resp)) mx m2 = Inr (table_map c' (table_id tbl))"
    "\<not> ok s2 \<longrightarrow> s = s2 \<and> table_map c' (table_id tbl) = m2"
    by (auto split: if_splits)
  with 1 2 that show thesis by blast
qed

lemma initial_non_covered_range_frame:
  "initial_non_covered_range e pk fl m = Inr m1 \<Longrightarrow> fl \<le> k \<Longrightarrow>
   FindOrNull m1 k = FindOrNull m k"
proof -
  assume init: "initial_non_covered_range e pk fl m = Inr m1" and k: "fl \<le> k"
  show ?thesis
  proof (cases "pk < fl")
    case False
    with init show ?thesis by (simp add: initial_non_covered_range_def)
  next
    case True
    with k have "pk < k" by simp
    then have "k \<noteq> []" by auto
    with True init k InsertOrDie_result[of "[]" _ "erase_below fl m" m1 k]
    show ?thesis by (simp add: initial_non_covered_range_def erase_below_find)
  qed
qed

lemma initial_non_covered_range_entry:
  "initial_non_covered_range e pk fl m = Inr m1 \<Longrightarrow> pk < fl \<Longrightarrow>
   FindOrNull m1 [] = Some (NonCoveredRange e [] fl)"
  using InsertOrDie_result[of "[]" "NonCoveredRange e [] fl" "erase_below fl m" m1 "[]"]
  by (simp add: initial_non_covered_range_def)

lemma trailing_non_covered_range_find:
  "trailing_non_covered_range e lu n mx m = Inr m' \<Longrightarrow>
   FindOrNull m' k =
     (if lu \<noteq> [] \<and> int n < mx
      then (if k = lu then Some (NonCoveredRange e lu [])
            else if k < lu then FindOrNull m k else None)
      else FindOrNull m k)"
  using InsertOrDie_result[of lu "NonCoveredRange e lu []" "erase_from lu m" m' k]
  by (auto simp: trailing_non_covered_range_def erase_from_find split: if_splits)

lemma trailing_non_covered_range_skip:
  "trailing_non_covered_range e lu n mx m = Inr m' \<Longrightarrow> mx \<le> int n \<Longrightarrow> m' = m"
  by (simp add: trailing_non_covered_range_def)

text \<open>
  C1 (amended). For an ingestion of a response with tablets that returns OK: when the upper
  bound of the last tablet is not empty and fewer tablets were returned than
  \<^verbatim>\<open>max_returned_locations\<close>, the range map of the table holds the trailing non-covered
  entry from that bound to the end under that bound, and no entry under a key above it.
  When the number of returned tablets is not below \<^verbatim>\<open>max_returned_locations\<close>, whatever
  the status, no trailing entry is inserted: the range map is the one the loop over the
  tablets left, and for tablets in ascending order with non-empty ranges every key at or
  above the last upper bound keeps the entry, or the absence of an entry, it had before.
\<close>

theorem trailing_non_covered_range_rule:
  "(ProcessGetTableLocationsResponse tbl pk ex resp mx now c = Inr (s, c', eo) \<and> ok s \<and>
    tablet_locations resp \<noteq> [] \<and>
    pb_partition_key_end (last (tablet_locations resp)) \<noteq> [] \<and>
    int (length (tablet_locations resp)) < mx \<longrightarrow>
      FindOrNull (table_map c' (table_id tbl)) (pb_partition_key_end (last (tablet_locations resp)))
        = Some (NonCoveredRange (now + int (ttl_millis resp))
                  (pb_partition_key_end (last (tablet_locations resp))) []) \<and>
      (\<forall>k. pb_partition_key_end (last (tablet_locations resp)) < k \<longrightarrow>
           FindOrNull (table_map c' (table_id tbl)) k = None)) \<and>
   (ProcessGetTableLocationsResponse tbl2 pk2 ex2 resp2 mx2 now2 c2 = Inr (s2, c2', eo2) \<and>
    tablet_locations resp2 \<noteq> [] \<and> mx2 \<le> int (length (tablet_locations resp2)) \<longrightarrow>
      (\<exists>c1 m1 sl cl lu.
          initial_non_covered_range (now2 + int (ttl_millis resp2)) pk2
            (pb_partition_key_start (hd (tablet_locations resp2))) (table_map c2 (table_id tbl2))
            = Inr m1 \<and>
          ingest_tablets (now2 + int (ttl_millis resp2)) (ts_infos resp2) (tablet_locations resp2)
            c1 m1 (pb_partition_key_start (hd (tablet_locations resp2)))
            = Inr (sl, cl, table_map c2' (table_id tbl2), lu)) \<and>
      (ascending (tablet_locations resp2) \<and>
       (\<forall>t \<in> set (tablet_locations resp2). pb_partition_key_start t < pb_partition_key_end t) \<longrightarrow>
         (\<forall>k. pb_partition_key_end (last (tablet_locations resp2)) \<le> k \<longrightarrow>
              FindOrNull (table_map c2' (table_id tbl2)) k
                = FindOrNull (table_map c2 (table_id tbl2)) k)))"
proof (intro conjI impI allI)
  assume a: "ProcessGetTableLocationsResponse tbl pk ex resp mx now c = Inr (s, c', eo) \<and> ok s \<and>
    tablet_locations resp \<noteq> [] \<and>
    pb_partition_key_end (last (tablet_locations resp)) \<noteq> [] \<and>
    int (length (tablet_locations resp)) < mx"
  then obtain first others where locs: "tablet_locations resp = first # others"
    by (cases "tablet_locations resp") auto
  from a have ret: "ProcessGetTableLocationsResponse tbl pk ex resp mx now c = Inr (s, c', eo)"
    and oks: "ok s" by auto
  from Process_nonempty_cases[OF ret locs] obtain c1 m1 sl cl ml lu where
    loop: "ingest_tablets (now + int (ttl_millis resp)) (ts_infos resp) (first # others) c1 m1
        (pb_partition_key_start first) = Inr (sl, cl, ml, lu)"
    and okl: "ok sl \<longrightarrow> ok s \<and> trailing_non_covered_range (now + int (ttl_millis resp)) lu
        (length (tablet_locations resp)) mx ml = Inr (table_map c' (table_id tbl))"
    and bad: "\<not> ok sl \<longrightarrow> s = sl \<and> table_map c' (table_id tbl) = ml"
    by metis
  from bad oks have sl: "ok sl" by auto
  from ingest_tablets_last_upper[OF loop sl] locs
  have lu: "lu = pb_partition_key_end (last (tablet_locations resp))" by simp
  from okl sl have tr: "trailing_non_covered_range (now + int (ttl_millis resp)) lu
        (length (tablet_locations resp)) mx ml = Inr (table_map c' (table_id tbl))" by simp
  note find = trailing_non_covered_range_find[OF tr]
  from a lu show "FindOrNull (table_map c' (table_id tbl))
      (pb_partition_key_end (last (tablet_locations resp)))
        = Some (NonCoveredRange (now + int (ttl_millis resp))
                  (pb_partition_key_end (last (tablet_locations resp))) [])"
    by (simp add: find)
  fix k
  assume "pb_partition_key_end (last (tablet_locations resp)) < k"
  with lu have "lu < k" by simp
  then have "k \<noteq> lu" "\<not> k < lu" by auto
  with a lu show "FindOrNull (table_map c' (table_id tbl)) k = None"
    by (simp add: find)
next
  assume a: "ProcessGetTableLocationsResponse tbl2 pk2 ex2 resp2 mx2 now2 c2 = Inr (s2, c2', eo2) \<and>
    tablet_locations resp2 \<noteq> [] \<and> mx2 \<le> int (length (tablet_locations resp2))"
  then obtain first others where locs: "tablet_locations resp2 = first # others"
    by (cases "tablet_locations resp2") auto
  from a have ret: "ProcessGetTableLocationsResponse tbl2 pk2 ex2 resp2 mx2 now2 c2
      = Inr (s2, c2', eo2)" by simp
  from Process_nonempty_cases[OF ret locs] obtain c1 m1 sl cl ml lu where
    init: "initial_non_covered_range (now2 + int (ttl_millis resp2)) pk2
        (pb_partition_key_start first) (table_map c2 (table_id tbl2)) = Inr m1"
    and loop: "ingest_tablets (now2 + int (ttl_millis resp2)) (ts_infos resp2) (first # others)
        c1 m1 (pb_partition_key_start first) = Inr (sl, cl, ml, lu)"
    and okl: "ok sl \<longrightarrow> ok s2 \<and> trailing_non_covered_range (now2 + int (ttl_millis resp2)) lu
        (length (tablet_locations resp2)) mx2 ml = Inr (table_map c2' (table_id tbl2))"
    and bad: "\<not> ok sl \<longrightarrow> s2 = sl \<and> table_map c2' (table_id tbl2) = ml"
    by metis
  have final: "table_map c2' (table_id tbl2) = ml"
  proof (cases "ok sl")
    case True
    with okl a trailing_non_covered_range_skip show ?thesis by metis
  next
    case False
    with bad show ?thesis by simp
  qed
  from init loop final locs
  show "\<exists>c1 m1 sl cl lu.
          initial_non_covered_range (now2 + int (ttl_millis resp2)) pk2
            (pb_partition_key_start (hd (tablet_locations resp2))) (table_map c2 (table_id tbl2))
            = Inr m1 \<and>
          ingest_tablets (now2 + int (ttl_millis resp2)) (ts_infos resp2) (tablet_locations resp2)
            c1 m1 (pb_partition_key_start (hd (tablet_locations resp2)))
            = Inr (sl, cl, table_map c2' (table_id tbl2), lu)"
    by (simp del: ingest_tablets.simps) blast
  fix k
  assume asc: "ascending (tablet_locations resp2) \<and>
       (\<forall>t \<in> set (tablet_locations resp2). pb_partition_key_start t < pb_partition_key_end t)"
    and k: "pb_partition_key_end (last (tablet_locations resp2)) \<le> k"
  have up: "pb_partition_key_end t \<le> k" if "t \<in> set (tablet_locations resp2)" for t
    using ascending_uppers[of "tablet_locations resp2" t] asc that k by auto
  from asc locs up[of first] have "pb_partition_key_start first \<le> k" by auto
  from initial_non_covered_range_frame[OF init this]
  have 1: "FindOrNull m1 k = FindOrNull (table_map c2 (table_id tbl2)) k" .
  from asc up locs have "\<forall>t \<in> set (first # others).
      pb_partition_key_start t < pb_partition_key_end t \<and> pb_partition_key_end t \<le> k" by simp
  from ingest_tablets_keeps_above[OF loop this] have 2: "FindOrNull ml k = FindOrNull m1 k" .
  from 1 2 final show "FindOrNull (table_map c2' (table_id tbl2)) k
                = FindOrNull (table_map c2 (table_id tbl2)) k" by simp
qed

lemma status_afterD:
  "status_after r = Some code \<Longrightarrow> \<exists>s c e. r = Inr (s, c, e) \<and> status_code s = code"
  by (auto simp: status_after_def split: sum.splits)

text \<open>
  C6 (amended). When a response whose tablets are in ascending order is ingested for a key
  below the lower bound of the first tablet, the range map of the table afterwards holds,
  under the empty key, the non-covered entry from the empty key to that lower bound,
  whatever status the ingestion returns. A point lookup by \<^verbatim>\<open>LookupTabletByKey\<close> whose
  floor entry is a non-covered entry that has not expired and contains the key calls the
  callback with \<^verbatim>\<open>NotFound\<close> from the fast path: the cache, its semaphore included, is
  unchanged and no \<^verbatim>\<open>LookupRpc\<close> is built.
\<close>

theorem initial_non_covered_range_round_trip:
  "(ProcessGetTableLocationsResponse tbl pk ex resp mx now c = Inr (s, c', eo) \<and>
    tablet_locations resp = first # others \<and> pk < pb_partition_key_start first \<and>
    ascending (tablet_locations resp) \<longrightarrow>
      FindOrNull (table_map c' (table_id tbl)) []
        = Some (NonCoveredRange (now + int (ttl_millis resp)) [] (pb_partition_key_start first))) \<and>
   (tablets_by_table_and_key c2 (table_id tbl2) = Some m \<and>
    FindFloorOrNull m k = Some (k0, NonCoveredRange e lo hi) \<and>
    \<not> e < now2 \<and> lo \<le> k \<and> (hi = [] \<or> k < hi) \<longrightarrow>
      (\<exists>msg. LookupTabletByKey c2 now2 tbl2 k kPoint visibility
               = Some (CallbackInvoked (Status NotFound msg) None, c2)))"
proof (intro conjI impI)
  assume a: "ProcessGetTableLocationsResponse tbl pk ex resp mx now c = Inr (s, c', eo) \<and>
    tablet_locations resp = first # others \<and> pk < pb_partition_key_start first \<and>
    ascending (tablet_locations resp)"
  then have ret: "ProcessGetTableLocationsResponse tbl pk ex resp mx now c = Inr (s, c', eo)"
    and locs: "tablet_locations resp = first # others"
    and below: "pk < pb_partition_key_start first"
    and asc: "ascending (first # others)" by auto
  let ?e = "now + int (ttl_millis resp)"
  from Process_nonempty_cases[OF ret locs] obtain c1 m1 sl cl ml lu where
    init: "initial_non_covered_range ?e pk (pb_partition_key_start first)
        (table_map c (table_id tbl)) = Inr m1"
    and loop: "ingest_tablets ?e (ts_infos resp) (first # others) c1 m1
        (pb_partition_key_start first) = Inr (sl, cl, ml, lu)"
    and okl: "ok sl \<longrightarrow> ok s \<and> trailing_non_covered_range ?e lu
        (length (tablet_locations resp)) mx ml = Inr (table_map c' (table_id tbl))"
    and bad: "\<not> ok sl \<longrightarrow> s = sl \<and> table_map c' (table_id tbl) = ml"
    by metis
  from below have ne: "pb_partition_key_start first \<noteq> []" by auto
  from initial_non_covered_range_entry[OF init below]
  have 1: "FindOrNull m1 [] = Some (NonCoveredRange ?e [] (pb_partition_key_start first))" .
  from ingest_tablets_keeps_empty_key[OF loop ne _ asc]
  have 2: "FindOrNull ml [] = FindOrNull m1 []" by simp
  show "FindOrNull (table_map c' (table_id tbl)) []
        = Some (NonCoveredRange ?e [] (pb_partition_key_start first))"
  proof (cases "ok sl")
    case False
    with bad 1 2 show ?thesis by simp
  next
    case True
    with okl have tr: "trailing_non_covered_range ?e lu (length (tablet_locations resp)) mx ml
        = Inr (table_map c' (table_id tbl))" by simp
    from trailing_non_covered_range_find[OF tr, of "[]"] 1 2 show ?thesis
      by (auto simp: above_empty_key)
  qed
next
  assume a: "tablets_by_table_and_key c2 (table_id tbl2) = Some m \<and>
    FindFloorOrNull m k = Some (k0, NonCoveredRange e lo hi) \<and>
    \<not> e < now2 \<and> lo \<le> k \<and> (hi = [] \<or> k < hi)"
  then have "LookupEntryByKeyFastPath c2 now2 tbl2 k = Some (NonCoveredRange e lo hi)"
    by (auto simp: LookupEntryByKeyFastPath_def Contains_def)
  then have "\<exists>msg. DoFastPathLookup c2 now2 tbl2 k kPoint = Some (Status NotFound msg, k, None)"
    by (subst DoFastPathLookup.simps) simp
  then show "\<exists>msg. LookupTabletByKey c2 now2 tbl2 k kPoint visibility
               = Some (CallbackInvoked (Status NotFound msg) None, c2)"
    by (auto simp: LookupTabletByKey_def)
qed

lemmas ingest_defs =
  status_after_def range_map_after_def ProcessGetTableLocationsResponse_def ingest_locations_def
  response_def two_ts_infos_def ts_info_def table_T_def table_map_def
  UpdateTabletServerUnlocked_def Update_at_def Update_def new_RemoteTabletServer_def
  initial_non_covered_range_def trailing_non_covered_range_def non_covered_gap_def
  ingest_tablet_def cache_new_tablet_def refresh_known_tablet_def reversed_range_def
  erase_below_def erase_between_def erase_from_def set_entry_def InsertOrDie_def FindOrNull_def
  discovered_entry_def Refresh_def new_RemoteTablet_def refresh_failed_def CloneAndPrepend_def
  locations_def ok_def Let_def

lemma range_map_afterD:
  "range_map_after (Inr (s, c, e)) tid = Some m \<Longrightarrow> table_map c tid = m"
  by (simp add: range_map_after_def table_map_def)

text \<open>
  C1 as stated fails for an ingestion that does not return OK: tablet \<open>B\<close> with an interned
  index behind the dictionary makes the loop return \<^verbatim>\<open>Corruption\<close>; one tablet of ten was
  returned and its upper bound is not empty, yet the entries above that bound stay and no
  trailing entry appears.
\<close>

theorem trailing_not_inferred_on_error_counterexample:
  "pb_partition_key_end (last (tablet_locations resp_bad_index)) = ''c3'' \<and>
   int (length (tablet_locations resp_bad_index)) < 10 \<and>
   status_after (ProcessGetTableLocationsResponse table_T ''c1'' True resp_bad_index 10 0 cache_D)
     = Some Corruption \<and>
   range_map_after (ProcessGetTableLocationsResponse table_T ''c1'' True resp_bad_index 10 0 cache_D)
     ''T'' = Some [(''c3'', NonCoveredRange 60000 ''c3'' ''c5''), (''c5'', CoveredEntry 60000 0),
                   (''c7'', NonCoveredRange 60000 ''c7'' [])]"
  by (simp add: ingest_defs resp_bad_index_def locs_bad_index_def cache_D_def)

text \<open>
  C6 as stated fails for a response that is not in ascending order: the second tablet
  starts at the empty key, so the initial non-covered entry is erased again and the empty
  key holds a covered entry.
\<close>

theorem initial_range_unsorted_response_counterexample:
  "''a'' < pb_partition_key_start (hd (tablet_locations resp_unsorted)) \<and>
   status_after (ProcessGetTableLocationsResponse table_T ''a'' False resp_unsorted 10 0 empty_cache)
     = Some OK \<and>
   range_map_after (ProcessGetTableLocationsResponse table_T ''a'' False resp_unsorted 10 0 empty_cache)
     ''T'' = Some [([], CoveredEntry 60000 1), (''a'', NonCoveredRange 60000 ''a'' [])]"
  by (simp add: ingest_defs resp_unsorted_def empty_cache_def)

theorem trailing_non_covered_range_rule_witness:
  "(\<exists>s c' eo.
      ProcessGetTableLocationsResponse table_T ''c'' False resp_S1 10 0 empty_cache
        = Inr (s, c', eo) \<and> ok s \<and>
      pb_partition_key_end (last (tablet_locations resp_S1)) = ''c7'' \<and>
      FindOrNull (table_map c' ''T'') ''c7'' = Some (NonCoveredRange 60000 ''c7'' []) \<and>
      FindOrNull (table_map c' ''T'') ''c8'' = None) \<and>
   (\<exists>s c' eo.
      ProcessGetTableLocationsResponse table_T ''a'' False resp_S5 2 0 cache_D
        = Inr (s, c', eo) \<and>
      ascending (tablet_locations resp_S5) \<and>
      pb_partition_key_end (last (tablet_locations resp_S5)) = ''c'' \<and>
      FindOrNull (table_map c' ''T'') ''c'' = None \<and>
      FindOrNull (table_map c' ''T'') ''c5'' = Some (CoveredEntry 60000 0))"
proof -
  have "status_after (ProcessGetTableLocationsResponse table_T ''c'' False resp_S1 10 0 empty_cache)
      = Some OK"
    by (simp add: ingest_defs resp_S1_def empty_cache_def)
  from status_afterD[OF this] obtain s c' eo where
    r1: "ProcessGetTableLocationsResponse table_T ''c'' False resp_S1 10 0 empty_cache
        = Inr (s, c', eo)" and s: "ok s" by (auto simp: ok_def)
  have "status_after (ProcessGetTableLocationsResponse table_T ''a'' False resp_S5 2 0 cache_D)
      = Some OK"
    by (simp add: ingest_defs resp_S5_def cache_D_def)
  from status_afterD[OF this] obtain s2 c2' eo2 where
    r2: "ProcessGetTableLocationsResponse table_T ''a'' False resp_S5 2 0 cache_D
        = Inr (s2, c2', eo2)" by auto
  have l1: "tablet_locations resp_S1 \<noteq> []"
    "pb_partition_key_end (last (tablet_locations resp_S1)) = ''c7''"
    "int (length (tablet_locations resp_S1)) < 10"
    by (simp_all add: resp_S1_def response_def locations_def)
  have l2: "tablet_locations resp_S5 \<noteq> []" "2 \<le> int (length (tablet_locations resp_S5))"
    "ascending (tablet_locations resp_S5)"
    "\<forall>t \<in> set (tablet_locations resp_S5). pb_partition_key_start t < pb_partition_key_end t"
    "pb_partition_key_end (last (tablet_locations resp_S5)) = ''c''"
    by (simp_all add: resp_S5_def response_def locations_def)
  have before: "FindOrNull (table_map cache_D ''T'') ''c'' = None"
    "FindOrNull (table_map cache_D ''T'') ''c5'' = Some (CoveredEntry 60000 0)"
    by (simp_all add: cache_D_def table_map_def FindOrNull_def)
  have T: "table_id table_T = ''T''" by (simp add: table_T_def)
  note rule = trailing_non_covered_range_rule[of table_T "''c''" False resp_S1 10 0 empty_cache
      s c' eo table_T "''a''" False resp_S5 2 0 cache_D s2 c2' eo2]
  from rule r1 s l1 have a:
    "FindOrNull (table_map c' ''T'') ''c7'' = Some (NonCoveredRange 60000 ''c7'' [])"
    "FindOrNull (table_map c' ''T'') ''c8'' = None"
    by (simp_all add: T resp_S1_def response_def)
  from rule r2 l2 before have b:
    "FindOrNull (table_map c2' ''T'') ''c'' = None"
    "FindOrNull (table_map c2' ''T'') ''c5'' = Some (CoveredEntry 60000 0)"
    by (simp_all add: T)
  from r1 s l1 a r2 l2 b show ?thesis by blast
qed

theorem initial_non_covered_range_round_trip_witness:
  "(\<exists>s c' eo.
      ProcessGetTableLocationsResponse table_T ''c'' False resp_S1 10 0 empty_cache
        = Inr (s, c', eo) \<and>
      ''c'' < pb_partition_key_start (hd (tablet_locations resp_S1)) \<and>
      ascending (tablet_locations resp_S1) \<and>
      FindOrNull (table_map c' ''T'') [] = Some (NonCoveredRange 60000 [] ''c1'')) \<and>
   tablets_by_table_and_key cache_D (table_id table_T) = Some range_map_D \<and>
   FindFloorOrNull range_map_D ''c4'' = Some (''c3'', NonCoveredRange 60000 ''c3'' ''c5'') \<and>
   (\<exists>msg. LookupTabletByKey cache_D 1000 table_T ''c4'' kPoint Visibility_VOTERS
            = Some (CallbackInvoked (Status NotFound msg) None, cache_D))"
proof -
  have "status_after (ProcessGetTableLocationsResponse table_T ''c'' False resp_S1 10 0 empty_cache)
      = Some OK"
    by (simp add: ingest_defs resp_S1_def empty_cache_def)
  from status_afterD[OF this] obtain s c' eo where
    r1: "ProcessGetTableLocationsResponse table_T ''c'' False resp_S1 10 0 empty_cache
        = Inr (s, c', eo)" by auto
  have l1: "tablet_locations resp_S1
      = locations ''B'' ''c1'' ''c3'' # [locations ''D'' ''c5'' ''c7'']"
    "''c'' < pb_partition_key_start (locations ''B'' ''c1'' ''c3'')"
    "ascending (tablet_locations resp_S1)"
    by (simp_all add: resp_S1_def response_def locations_def)
  have m: "tablets_by_table_and_key cache_D (table_id table_T) = Some range_map_D"
    by (simp add: cache_D_def table_T_def range_map_D_def)
  have fl: "FindFloorOrNull range_map_D ''c4'' = Some (''c3'', NonCoveredRange 60000 ''c3'' ''c5'')"
    by (simp add: range_map_D_def)
  note rule = initial_non_covered_range_round_trip[of table_T "''c''" False resp_S1 10 0
      empty_cache s c' eo "locations ''B'' ''c1'' ''c3''" "[locations ''D'' ''c5'' ''c7'']"
      cache_D table_T range_map_D "''c4''" "''c3''" 60000 "''c3''" "''c5''" 1000
      Visibility_VOTERS]
  from rule r1 l1 have a:
    "FindOrNull (table_map c' ''T'') [] = Some (NonCoveredRange 60000 [] ''c1'')"
    by (simp add: table_T_def resp_S1_def response_def locations_def)
  from rule m fl have b:
    "\<exists>msg. LookupTabletByKey cache_D 1000 table_T ''c4'' kPoint Visibility_VOTERS
            = Some (CallbackInvoked (Status NotFound msg) None, cache_D)"
    by simp
  from l1 have c: "''c'' < pb_partition_key_start (hd (tablet_locations resp_S1))" by simp
  from r1 c l1(3) a m fl b show ?thesis by blast
qed

section \<open>Scenarios of the specification\<close>

text \<open>
  The range map after scenario S1 (two tablets with gaps, short read) and after scenario S5
  (two adjacent tablets, full read) on a new cache.
\<close>

lemma scenario_S1:
  "range_map_after (ProcessGetTableLocationsResponse table_T ''c'' False resp_S1 10 0 empty_cache) ''T''
     = Some [([], NonCoveredRange 60000 [] ''c1''), (''c1'', CoveredEntry 60000 0),
             (''c3'', NonCoveredRange 60000 ''c3'' ''c5''), (''c5'', CoveredEntry 60000 1),
             (''c7'', NonCoveredRange 60000 ''c7'' [])]"
  by (simp add: ingest_defs resp_S1_def empty_cache_def)

lemma scenario_S5:
  "range_map_after (ProcessGetTableLocationsResponse table_T ''a'' False resp_S5 2 0 empty_cache) ''T''
     = Some [(''a'', CoveredEntry 60000 0), (''b'', CoveredEntry 60000 1)]"
  by (simp add: ingest_defs resp_S5_def empty_cache_def)

text \<open>
  Scenario S2: a point lookup into the non-covered range between the tablets answers from
  the cache with the bounds of the range.
\<close>

lemma scenario_S2:
  "DoFastPathLookup cache_D 1000 table_T ''c4'' kPoint
     = Some (Status NotFound
               ''No tablet covering the requested range partition: NonCoveredRange { lower_bound: (c3), upper_bound: (c5), ttl: 59000ms }'',
             ''c4'', None)"
  by (subst DoFastPathLookup.simps)
    (simp add: LookupEntryByKeyFastPath_def cache_D_def table_T_def Contains_def DebugString_def
      DebugLowerBoundPartitionKey_def string_of_int_def string_of_nat.simps Let_def)

end
